theory Spec2Isabelle
  imports Complex_Main
begin

section \<open>Data model (PresetTypes.h)\<close>

text \<open>
  The three structs of \<^verbatim>\<open>PresetTypes.h\<close>. A C++ \<^verbatim>\<open>float\<close> is modelled by the real
  number it denotes: binary32 rounding, the infinities and NaN are outside the model.
  \<^verbatim>\<open>CustomPresetCollection\<close> is a \<^verbatim>\<open>std::vector\<close>, modelled as a list.
\<close>

record PresetPaintColor =
  r :: real
  g :: real
  b :: real

record PresetCustomization =
  primaryColor :: PresetPaintColor
  accentColor :: PresetPaintColor
  carLabel :: string
  decalLabel :: string
  wheelsLabel :: string
  paintFinishMatte :: bool
  paintFinishPearlescent :: bool

record CustomPreset =
  name :: string
  loadoutCode :: string
  customization :: PresetCustomization

type_synonym CustomPresetCollection = "CustomPreset list"

text \<open>The default member initialisers of \<^verbatim>\<open>PresetPaintColor\<close> and \<^verbatim>\<open>PresetCustomization\<close>.\<close>

definition default_color :: PresetPaintColor where
  "default_color = \<lparr>r = 0, g = 0, b = 0\<rparr>"

definition default_customization :: PresetCustomization where
  "default_customization =
     \<lparr>primaryColor = \<lparr>r = 18 / 100, g = 18 / 100, b = 18 / 100\<rparr>,
      accentColor = \<lparr>r = 9 / 10, g = 35 / 100, b = 15 / 100\<rparr>,
      carLabel = ''Octane'', decalLabel = ''None'', wheelsLabel = ''OEM'',
      paintFinishMatte = False, paintFinishPearlescent = False\<rparr>"

section \<open>Text primitives\<close>

subsection \<open>Searching a \<^verbatim>\<open>std::string\<close>\<close>

text \<open>
  \<^verbatim>\<open>find_first_not_of\<close>, \<^verbatim>\<open>find_last_not_of\<close> and \<^verbatim>\<open>find_last_of\<close> return a position
  or \<^verbatim>\<open>npos\<close>; \<open>None\<close> is \<^verbatim>\<open>npos\<close>. The character set is given as a predicate.
\<close>

fun find_first_of :: "(char \<Rightarrow> bool) \<Rightarrow> string \<Rightarrow> nat option" where
  "find_first_of P [] = None"
| "find_first_of P (c # cs) =
     (if P c then Some 0 else map_option Suc (find_first_of P cs))"

fun find_last_of :: "(char \<Rightarrow> bool) \<Rightarrow> string \<Rightarrow> nat option" where
  "find_last_of P [] = None"
| "find_last_of P (c # cs) =
     (case find_last_of P cs of
        Some i \<Rightarrow> Some (Suc i)
      | None \<Rightarrow> (if P c then Some 0 else None))"

definition find_first_not_of :: "(char \<Rightarrow> bool) \<Rightarrow> string \<Rightarrow> nat option" where
  "find_first_not_of P text = find_first_of (\<lambda>c. \<not> P c) text"

definition find_last_not_of :: "(char \<Rightarrow> bool) \<Rightarrow> string \<Rightarrow> nat option" where
  "find_last_not_of P text = find_last_of (\<lambda>c. \<not> P c) text"

text \<open>\<^verbatim>\<open>text.substr(pos, n)\<close> for \<open>pos \<le> length text\<close>, the only way the code calls it.\<close>

definition substr :: "string \<Rightarrow> nat \<Rightarrow> nat \<Rightarrow> string" where
  "substr text pos n = take n (drop pos text)"

subsection \<open>\<^verbatim>\<open>TrimWhitespace\<close>\<close>

text \<open>The set \<^verbatim>\<open>" \t\r\n"\<close>: space, tab (9), carriage return (13), newline (10).\<close>

definition is_ws :: "char \<Rightarrow> bool" where
  "is_ws c \<longleftrightarrow> c = CHR '' '' \<or> c = CHR 0x09 \<or> c = CHR 0x0D \<or> c = CHR 0x0A"

text \<open>
  When \<open>first\<close> is found, \<open>last\<close> is found too; the branch for \<^verbatim>\<open>npos\<close> there is what
  \<^verbatim>\<open>substr\<close> gives for the wrapped count (the rest of the text) and is never taken.
\<close>

definition TrimWhitespace :: "string \<Rightarrow> string" where
  "TrimWhitespace text =
     (case find_first_not_of is_ws text of
        None \<Rightarrow> []
      | Some first_pos \<Rightarrow>
          (case find_last_not_of is_ws text of
             None \<Rightarrow> drop first_pos text
           | Some last_pos \<Rightarrow> substr text first_pos (last_pos - first_pos + 1)))"

subsection \<open>\<^verbatim>\<open>std::getline\<close> on a stream\<close>

text \<open>
  The stream is the text not yet read. \<^verbatim>\<open>std::getline(stream, token, d)\<close> fails (the
  loop condition is false) when nothing is left; otherwise it yields the characters up to
  the next \<open>d\<close> or the end of the text and removes them and that \<open>d\<close> from the stream.
\<close>

fun getline :: "char \<Rightarrow> string \<Rightarrow> (string \<times> string) option" where
  "getline d [] = None"
| "getline d (c # cs) =
     Some (takeWhile (\<lambda>x. x \<noteq> d) (c # cs), drop 1 (dropWhile (\<lambda>x. x \<noteq> d) (c # cs)))"

lemma getline_shorter:
  assumes "getline d stream = Some (token, rest)"
  shows "length rest < length stream"
proof (cases stream)
  case Nil
  then show ?thesis using assms by simp
next
  case (Cons c cs)
  have "length (dropWhile (\<lambda>x. x \<noteq> d) cs) \<le> length cs"
    by (rule length_dropWhile_le)
  then show ?thesis using Cons assms by (auto split: if_splits)
qed

text \<open>
  \<open>getlines d stream\<close> is the sequence of values that the loop
  \<^verbatim>\<open>while (std::getline(stream, x, d)) { ... }\<close> binds to \<open>x\<close>, in order.
\<close>

function getlines :: "char \<Rightarrow> string \<Rightarrow> string list" where
  "getlines d stream =
     (case getline d stream of
        None \<Rightarrow> []
      | Some (token, rest) \<Rightarrow> token # getlines d rest)"
  by pat_completeness auto
termination
  by (relation "measure (\<lambda>(d, stream). length stream)") (auto dest: getline_shorter)

declare getlines.simps [simp del]

subsection \<open>\<^verbatim>\<open>PresetManager::TokenizeLine\<close>\<close>

definition TokenizeLine :: "string \<Rightarrow> string list" where
  "TokenizeLine line = getlines CHR ''|'' line"

section \<open>The collection (PresetManager.cpp)\<close>

text \<open>
  \<^verbatim>\<open>FindPresetIndex\<close>: \<^verbatim>\<open>std::find_if\<close> from the front; the sentinel is the size of the
  collection.
\<close>

fun FindPresetIndex :: "CustomPresetCollection \<Rightarrow> string \<Rightarrow> nat" where
  "FindPresetIndex [] nm = 0"
| "FindPresetIndex (preset # rest) nm =
     (if name preset = nm then 0 else Suc (FindPresetIndex rest nm))"

definition FindPreset :: "CustomPresetCollection \<Rightarrow> string \<Rightarrow> CustomPreset option" where
  "FindPreset presets nm = find (\<lambda>preset. name preset = nm) presets"

definition AddOrUpdatePreset :: "CustomPresetCollection \<Rightarrow> CustomPreset \<Rightarrow> CustomPresetCollection" where
  "AddOrUpdatePreset presets preset =
     (let index = FindPresetIndex presets (name preset)
      in if index \<ge> length presets then presets @ [preset]
         else presets[index := preset])"

definition RemovePreset :: "CustomPresetCollection \<Rightarrow> string \<Rightarrow> CustomPresetCollection" where
  "RemovePreset presets nm =
     (let index = FindPresetIndex presets nm
      in if index \<ge> length presets then presets
         else take index presets @ drop (Suc index) presets)"

section \<open>ColorCodec\<close>

subsection \<open>\<^verbatim>\<open>PresetManager::ParseColorToken\<close>\<close>

text \<open>
  \<^verbatim>\<open>std::stof\<close> belongs to the C++ library, not to this repository: the parser is a
  parameter \<open>stof\<close> of the model, \<open>None\<close> standing for either exception it throws
  (\<^verbatim>\<open>invalid_argument\<close>, \<^verbatim>\<open>out_of_range\<close>), which the \<^verbatim>\<open>catch (...)\<close> turns into 0.
  \<^verbatim>\<open>std::max(0.0f, value)\<close> is \<open>max 0 value\<close>.
\<close>

definition parse_component :: "(string \<Rightarrow> real option) \<Rightarrow> string \<Rightarrow> real" where
  "parse_component stof component =
     (let parsed = (case stof component of None \<Rightarrow> 0 | Some v \<Rightarrow> v);
          clamped = max 0 parsed
      in if clamped > 1 then clamped / 255 else clamped)"

text \<open>The \<^verbatim>\<open>switch (index)\<close>: components after the third are read and ignored.\<close>

definition set_channel :: "nat \<Rightarrow> real \<Rightarrow> PresetPaintColor \<Rightarrow> PresetPaintColor" where
  "set_channel index normalized color =
     (if index = 0 then color\<lparr>r := normalized\<rparr>
      else if index = 1 then color\<lparr>g := normalized\<rparr>
      else if index = 2 then color\<lparr>b := normalized\<rparr>
      else color)"

fun ParseColorToken_loop ::
  "(string \<Rightarrow> real option) \<Rightarrow> string list \<Rightarrow> nat \<Rightarrow> PresetPaintColor \<Rightarrow> PresetPaintColor" where
  "ParseColorToken_loop stof [] index color = color"
| "ParseColorToken_loop stof (component # components) index color =
     ParseColorToken_loop stof components (index + 1)
       (set_channel index (parse_component stof component) color)"

definition ParseColorToken :: "(string \<Rightarrow> real option) \<Rightarrow> string \<Rightarrow> PresetPaintColor" where
  "ParseColorToken stof token =
     ParseColorToken_loop stof (getlines CHR '','' token) 0 default_color"

subsection \<open>\<^verbatim>\<open>PresetManager::SerializeColorToken\<close>\<close>

text \<open>
  \<^verbatim>\<open>stream << std::fixed << std::setprecision(3) << x\<close> in the classic locale: the sign,
  the integer part in decimal, a point and three decimals, the value rounded to the
  nearest thousandth (ties to even).
\<close>

definition digit_char :: "nat \<Rightarrow> char" where
  "digit_char n = char_of (48 + n)"

fun dec_digits :: "nat \<Rightarrow> string" where
  "dec_digits n = (if n < 10 then [digit_char n] else dec_digits (n div 10) @ [digit_char (n mod 10)])"

declare dec_digits.simps [simp del]

definition round_half_even :: "real \<Rightarrow> int" where
  "round_half_even x =
     (let f = \<lfloor>x\<rfloor>; d = x - of_int f
      in if d < 1 / 2 then f else if d > 1 / 2 then f + 1 else if even f then f else f + 1)"

definition format_fixed3 :: "real \<Rightarrow> string" where
  "format_fixed3 x =
     (let k = nat (round_half_even (\<bar>x\<bar> * 1000))
      in (if x < 0 then ''-'' else []) @ dec_digits (k div 1000) @ ''.'' @
         [digit_char (k div 100 mod 10), digit_char (k div 10 mod 10), digit_char (k mod 10)])"

definition SerializeColorToken :: "PresetPaintColor \<Rightarrow> string" where
  "SerializeColorToken color =
     format_fixed3 (r color) @ '','' @ format_fixed3 (g color) @ '','' @ format_fixed3 (b color)"

subsection \<open>A reference parser for decimal literals\<close>

text \<open>
  \<open>stof_decimal\<close> is \<^verbatim>\<open>std::stof\<close> on plain decimal literals: leading white space of
  the C locale is skipped, then an optional sign, digits and an optional fraction are
  read; what follows is ignored; no digit at all is \<^verbatim>\<open>invalid_argument\<close>. The value
  is the exact decimal, where \<^verbatim>\<open>std::stof\<close> rounds it to binary32; exponents, hexadecimal
  literals, \<^verbatim>\<open>inf\<close>, \<^verbatim>\<open>nan\<close> and the range of binary32 are not covered. It is therefore
  used only on the three-decimal output of the serializer and on sample tokens; the
  general results take the parser as a parameter.
\<close>

definition is_space :: "char \<Rightarrow> bool" where
  "is_space c \<longleftrightarrow> c = CHR '' '' \<or> (9 \<le> (of_char c :: nat) \<and> (of_char c :: nat) \<le> 13)"

definition is_digit :: "char \<Rightarrow> bool" where
  "is_digit c \<longleftrightarrow> 48 \<le> (of_char c :: nat) \<and> (of_char c :: nat) \<le> 57"

definition digit_val :: "char \<Rightarrow> nat" where
  "digit_val c = of_char c - 48"

definition digits_value :: "string \<Rightarrow> nat" where
  "digits_value ds = foldl (\<lambda>n c. 10 * n + digit_val c) 0 ds"

definition stof_decimal :: "string \<Rightarrow> real option" where
  "stof_decimal str =
     (let s1 = dropWhile is_space str;
          negative = (s1 \<noteq> [] \<and> hd s1 = CHR ''-'');
          s2 = (if s1 \<noteq> [] \<and> (hd s1 = CHR ''-'' \<or> hd s1 = CHR ''+'') then tl s1 else s1);
          int_digits = takeWhile is_digit s2;
          s3 = dropWhile is_digit s2;
          frac_digits = (if s3 \<noteq> [] \<and> hd s3 = CHR ''.'' then takeWhile is_digit (tl s3) else [])
      in if int_digits = [] \<and> frac_digits = [] then None
         else let magnitude = real (digits_value int_digits)
                    + real (digits_value frac_digits) / 10 ^ length frac_digits
              in Some (if negative then - magnitude else magnitude))"

section \<open>RecordFormat: one line of each format\<close>

text \<open>
  The body of the loop of \<^verbatim>\<open>RefreshFromVanillaPresets\<close>, up to the call of
  \<^verbatim>\<open>AddOrUpdatePreset\<close>: \<open>None\<close> is \<^verbatim>\<open>continue\<close>, \<open>Some preset\<close> the record passed on.
  \<^verbatim>\<open>line.front()\<close> is read only when the line is not empty.
\<close>

definition is_tab_or_space :: "char \<Rightarrow> bool" where
  "is_tab_or_space c \<longleftrightarrow> c = CHR 0x09 \<or> c = CHR '' ''"

definition vanilla_line :: "string \<Rightarrow> CustomPreset option" where
  "vanilla_line raw =
     (let line = TrimWhitespace raw
      in if line = [] \<or> hd line = CHR ''#'' then None
         else (case find_last_of is_tab_or_space line of
                 None \<Rightarrow> None
               | Some delimiterPos \<Rightarrow>
                   (let nm = TrimWhitespace (substr line 0 delimiterPos);
                        code = TrimWhitespace (drop (delimiterPos + 1) line)
                    in if nm = [] \<or> code = [] then None
                       else Some \<lparr>name = nm, loadoutCode = code,
                                  customization = default_customization\<rparr>)))"

text \<open>
  The body of the loop of \<^verbatim>\<open>LoadFromStorage\<close>, up to the call of \<^verbatim>\<open>AddOrUpdatePreset\<close>.
  \<open>storage_customization\<close> is the cascade of \<^verbatim>\<open>if (tokens.size() >= k)\<close> statements on the
  default-initialised \<^verbatim>\<open>preset.customization\<close>; each \<open>tokens ! i\<close> is under the source's
  guard \<^verbatim>\<open>tokens.size() >= i + 1\<close>.
\<close>

definition storage_customization ::
  "(string \<Rightarrow> real option) \<Rightarrow> string list \<Rightarrow> PresetCustomization" where
  "storage_customization stof tokens =
     (let c2 = default_customization;
          c3 = (if length tokens \<ge> 3
                then c2\<lparr>primaryColor := ParseColorToken stof (tokens ! 2)\<rparr> else c2);
          c4 = (if length tokens \<ge> 4
                then c3\<lparr>accentColor := ParseColorToken stof (tokens ! 3)\<rparr> else c3);
          c5 = (if length tokens \<ge> 5
                then c4\<lparr>carLabel := TrimWhitespace (tokens ! 4)\<rparr> else c4);
          c6 = (if length tokens \<ge> 6
                then c5\<lparr>decalLabel := TrimWhitespace (tokens ! 5)\<rparr> else c5);
          c7 = (if length tokens \<ge> 7
                then c6\<lparr>wheelsLabel := TrimWhitespace (tokens ! 6)\<rparr> else c6);
          c8 = (if length tokens \<ge> 8
                then c7\<lparr>paintFinishMatte :=
                       (tokens ! 7 = ''1'' \<or> tokens ! 7 = ''true'' \<or> tokens ! 7 = ''matte'')\<rparr>
                else c7)
      in if length tokens \<ge> 9
         then c8\<lparr>paintFinishPearlescent :=
                (tokens ! 8 = ''1'' \<or> tokens ! 8 = ''true'' \<or> tokens ! 8 = ''pearlescent'')\<rparr>
         else c8)"

definition storage_line :: "(string \<Rightarrow> real option) \<Rightarrow> string \<Rightarrow> CustomPreset option" where
  "storage_line stof raw =
     (let line = TrimWhitespace raw
      in if line = [] \<or> hd line = CHR ''#'' then None
         else (let tokens = TokenizeLine line
               in if length tokens < 2 then None
                  else Some \<lparr>name = TrimWhitespace (tokens ! 0),
                             loadoutCode = TrimWhitespace (tokens ! 1),
                             customization = storage_customization stof tokens\<rparr>))"

text \<open>What the loop of \<^verbatim>\<open>SaveToStorage\<close> writes for one record.\<close>

definition flag_char :: "bool \<Rightarrow> char" where
  "flag_char flag = (if flag then CHR ''1'' else CHR ''0'')"

definition save_line :: "CustomPreset \<Rightarrow> string" where
  "save_line preset =
     name preset @ ''|'' @ loadoutCode preset @ ''|'' @
     SerializeColorToken (primaryColor (customization preset)) @ ''|'' @
     SerializeColorToken (accentColor (customization preset)) @ ''|'' @
     carLabel (customization preset) @ ''|'' @
     decalLabel (customization preset) @ ''|'' @
     wheelsLabel (customization preset) @ ''|'' @
     [flag_char (paintFinishMatte (customization preset))] @ ''|'' @
     [flag_char (paintFinishPearlescent (customization preset))] @ [CHR 0x0A]"

text \<open>The nine fields that \<open>save_line\<close> joins with the delimiter.\<close>

definition saved_tokens :: "CustomPreset \<Rightarrow> string list" where
  "saved_tokens p =
     [name p, loadoutCode p,
      SerializeColorToken (primaryColor (customization p)),
      SerializeColorToken (accentColor (customization p)),
      carLabel (customization p), decalLabel (customization p), wheelsLabel (customization p),
      [flag_char (paintFinishMatte (customization p))],
      [flag_char (paintFinishPearlescent (customization p))]]"

section \<open>PresetStore: the manager and its files\<close>

text \<open>
  The state of a \<^verbatim>\<open>PresetManager\<close> together with what it reaches outside itself: the log
  of \<^verbatim>\<open>cvarManager\<close>, the two files and the storage directory. A file that an
  \<^verbatim>\<open>std::ifstream\<close> opens is \<open>Content text\<close>; \<open>storage_file_writable\<close> says whether the
  \<^verbatim>\<open>std::ofstream\<close> of \<^verbatim>\<open>SaveToStorage\<close> opens, and a stream that opens takes all that is
  written to it. \<open>storage_dir_empty\<close> is \<^verbatim>\<open>storageFilePath.parent_path().empty()\<close>.
\<close>

datatype source_file = Missing | Unreadable | Content string

datatype exception = filesystem_error

record PresetManager =
  presets :: CustomPresetCollection
  storageFilePath :: string
  vanillaPresetsPath :: string
  log_lines :: "string list"
  vanilla_file :: source_file
  storage_file :: source_file
  storage_dir_empty :: bool
  storage_dir_exists :: bool
  storage_dir_creatable :: bool
  storage_file_writable :: bool

definition cvar_log :: "string \<Rightarrow> PresetManager \<Rightarrow> PresetManager" where
  "cvar_log message m = m\<lparr>log_lines := log_lines m @ [message]\<rparr>"

text \<open>
  \<^verbatim>\<open>EnsureStorageDirectory\<close> calls the overload of \<^verbatim>\<open>std::filesystem::create_directories\<close>
  that reports failure by throwing \<^verbatim>\<open>std::filesystem::filesystem_error\<close>, and nothing
  under it or around it catches: the exception is the \<open>Inl\<close> result.
\<close>

definition EnsureStorageDirectory :: "PresetManager \<Rightarrow> exception + PresetManager" where
  "EnsureStorageDirectory m =
     (if \<not> storage_dir_empty m \<and> \<not> storage_dir_exists m
      then (if storage_dir_creatable m then Inr (m\<lparr>storage_dir_exists := True\<rparr>)
            else Inl filesystem_error)
      else Inr m)"

definition SaveToStorage :: "PresetManager \<Rightarrow> exception + PresetManager" where
  "SaveToStorage m =
     (case EnsureStorageDirectory m of
        Inl e \<Rightarrow> Inl e
      | Inr m1 \<Rightarrow>
          if \<not> storage_file_writable m1
          then Inr (cvar_log (''ExpandedPresets: Failed to open storage file for writing: ''
                        @ storageFilePath m1) m1)
          else Inr (m1\<lparr>storage_file := Content (concat (map save_line (presets m1)))\<rparr>))"

definition RefreshFromVanillaPresets_step ::
  "CustomPresetCollection \<Rightarrow> string \<Rightarrow> CustomPresetCollection" where
  "RefreshFromVanillaPresets_step ps line =
     (case vanilla_line line of None \<Rightarrow> ps | Some preset \<Rightarrow> AddOrUpdatePreset ps preset)"

definition RefreshFromVanillaPresets :: "PresetManager \<Rightarrow> PresetManager" where
  "RefreshFromVanillaPresets m0 =
     (let m = m0\<lparr>presets := []\<rparr>
      in if vanillaPresetsPath m = [] \<or> vanilla_file m = Missing
         then cvar_log ''ExpandedPresets: Could not find vanilla presets.data file to import presets.'' m
         else (case vanilla_file m of
                 Content text \<Rightarrow>
                   m\<lparr>presets := foldl RefreshFromVanillaPresets_step (presets m)
                                    (getlines (CHR 0x0A) text)\<rparr>
               | _ \<Rightarrow>
                   cvar_log (''ExpandedPresets: Failed to open vanilla presets file: ''
                     @ vanillaPresetsPath m) m))"

definition LoadFromStorage_step ::
  "(string \<Rightarrow> real option) \<Rightarrow> CustomPresetCollection \<Rightarrow> string \<Rightarrow> CustomPresetCollection" where
  "LoadFromStorage_step stof ps line =
     (case storage_line stof line of None \<Rightarrow> ps | Some preset \<Rightarrow> AddOrUpdatePreset ps preset)"

definition LoadFromStorage ::
  "(string \<Rightarrow> real option) \<Rightarrow> PresetManager \<Rightarrow> exception + PresetManager" where
  "LoadFromStorage stof m0 =
     (let m = m0\<lparr>presets := []\<rparr>
      in case storage_file m of
           Content text \<Rightarrow>
             Inr (m\<lparr>presets := foldl (LoadFromStorage_step stof) (presets m)
                                   (getlines (CHR 0x0A) text)\<rparr>)
         | _ \<Rightarrow>
             SaveToStorage (RefreshFromVanillaPresets
               (cvar_log ''ExpandedPresets: No stored presets were found, importing from presets.data instead.'' m)))"

text \<open>\<^verbatim>\<open>SaveToStorage()\<close> followed by \<^verbatim>\<open>LoadFromStorage()\<close>; an exception ends the sequence.\<close>

definition save_then_load ::
  "(string \<Rightarrow> real option) \<Rightarrow> PresetManager \<Rightarrow> exception + PresetManager" where
  "save_then_load stof m =
     (case SaveToStorage m of Inl e \<Rightarrow> Inl e | Inr m1 \<Rightarrow> LoadFromStorage stof m1)"

section \<open>ImportReconciler\<close>

text \<open>
  Modelled from the spec: the treatment of one line by \<^verbatim>\<open>PresetManager::ImportFromFile\<close>, a
  function that \<^verbatim>\<open>PresetManager.h\<close> does not declare and no source file defines (only its
  call in \<^verbatim>\<open>ExpandedPresetsPlugin::ImportBakkesPluginsCatalog\<close> is in the repository). How
  the missing function reads a line of the persisted format is not known, so the reader is
  a parameter \<open>parse\<close>: it yields the valid record of a line, or \<open>None\<close> for a line that
  has none. A record whose name is already in the store is applied only under
  \<open>overwriteExisting\<close>, a record with a new name is always added, and the count is that of
  the records applied.
\<close>

definition ImportFromFile_step ::
  "(string \<Rightarrow> CustomPreset option) \<Rightarrow> bool \<Rightarrow> CustomPresetCollection \<times> nat \<Rightarrow> string
     \<Rightarrow> CustomPresetCollection \<times> nat" where
  "ImportFromFile_step parse overwriteExisting acc line =
     (case parse line of
        None \<Rightarrow> acc
      | Some preset \<Rightarrow>
          if FindPresetIndex (fst acc) (name preset) < length (fst acc)
          then (if overwriteExisting
                then (AddOrUpdatePreset (fst acc) preset, snd acc + 1)
                else acc)
          else (AddOrUpdatePreset (fst acc) preset, snd acc + 1))"

text \<open>
  Modelled from the spec: \<^verbatim>\<open>PresetManager::ImportFromFile(path, overwriteExisting)\<close>, missing
  from the sources as said above. It reads the file at \<open>path\<close> line by line and returns
  the number of records added or overwritten; a file that is missing (or cannot be
  opened) is logged, the spec not giving the text, and the result is 0.
\<close>

definition ImportFromFile ::
  "(string \<Rightarrow> CustomPreset option) \<Rightarrow> string \<Rightarrow> source_file \<Rightarrow> bool \<Rightarrow> PresetManager
     \<Rightarrow> PresetManager \<times> nat" where
  "ImportFromFile parse path file overwriteExisting m =
     (case file of
        Content text \<Rightarrow>
          (let result = foldl (ImportFromFile_step parse overwriteExisting) (presets m, 0)
                          (getlines (CHR 0x0A) text)
           in (m\<lparr>presets := fst result\<rparr>, snd result))
      | _ \<Rightarrow> (cvar_log (''ExpandedPresets: Could not open import file: '' @ path) m, 0))"

text \<open>
  \<^verbatim>\<open>ExpandedPresetsPlugin::ImportBakkesPluginsCatalog\<close>, the caller in the source. The plugin
  owns the manager (\<open>None\<close> is the null \<^verbatim>\<open>unique_ptr\<close>); \<open>cvarManager_set\<close> is the test
  \<^verbatim>\<open>if (cvarManager)\<close>; \<open>catalog\<close> is the file at \<open>catalogPath\<close>, which exists unless it is
  \<open>Missing\<close>; \<open>parse\<close> is passed on to \<open>ImportFromFile\<close>.
\<close>

record ExpandedPresetsPlugin =
  presetManager :: "PresetManager option"
  cvarManager_set :: bool
  selectedPresetIndex :: int
  editingPreset :: CustomPreset

definition ResetEditingPreset :: "ExpandedPresetsPlugin \<Rightarrow> ExpandedPresetsPlugin" where
  "ResetEditingPreset plugin =
     plugin\<lparr>editingPreset := \<lparr>name = [], loadoutCode = [], customization = default_customization\<rparr>\<rparr>"

definition ImportBakkesPluginsCatalog ::
  "(string \<Rightarrow> CustomPreset option) \<Rightarrow> string \<Rightarrow> source_file \<Rightarrow> bool \<Rightarrow> ExpandedPresetsPlugin
     \<Rightarrow> ExpandedPresetsPlugin" where
  "ImportBakkesPluginsCatalog parse catalogPath catalog overwriteExisting plugin =
     (case presetManager plugin of
        None \<Rightarrow> plugin
      | Some m \<Rightarrow>
          if catalog = Missing
          then (if cvarManager_set plugin
                then plugin\<lparr>presetManager := Some
                       (cvar_log ''ExpandedPresets: Run the download script or copy bakkesplugins_cars.cfg into this folder.''
                         (cvar_log (''ExpandedPresets: Catalog file not found at '' @ catalogPath) m))\<rparr>
                else plugin)
          else (let result = ImportFromFile parse catalogPath catalog overwriteExisting m;
                    plugin1 = plugin\<lparr>presetManager := Some (fst result)\<rparr>
                in if snd result > 0
                   then ResetEditingPreset (plugin1\<lparr>selectedPresetIndex := - 1\<rparr>)
                   else plugin1))"

section \<open>The operations as the spec words them\<close>

text \<open>
  \<open>split_fields\<close> is the split of the spec's LineTokenizer: every delimiter ends a field,
  so empty fields between delimiters and an empty field after a final delimiter are kept.
\<close>

fun split_fields :: "char \<Rightarrow> string \<Rightarrow> string list" where
  "split_fields d [] = [[]]"
| "split_fields d (c # cs) =
     (if c = d then [] # split_fields d cs
      else (case split_fields d cs of
              [] \<Rightarrow> [[c]]
            | f # fs \<Rightarrow> (c # f) # fs))"

text \<open>
  The two fields of a vanilla line as the spec words them: what stands before the last
  run of tabs and spaces, and what stands after it.
\<close>

definition before_last_run :: "string \<Rightarrow> string" where
  "before_last_run line =
     rev (dropWhile is_tab_or_space (dropWhile (\<lambda>c. \<not> is_tab_or_space c) (rev line)))"

definition after_last_run :: "string \<Rightarrow> string" where
  "after_last_run line = rev (takeWhile (\<lambda>c. \<not> is_tab_or_space c) (rev line))"

text \<open>
  The vanilla format as the spec words it, read on a text as it stands: no record when the
  text has no tab or space, otherwise the two trimmed fields, and no record when one of
  them is empty.
\<close>

definition vanilla_fields :: "string \<Rightarrow> CustomPreset option" where
  "vanilla_fields line =
     (if \<not> (\<exists>c\<in>set line. is_tab_or_space c) then None
      else (let nm = TrimWhitespace (before_last_run line);
                code = TrimWhitespace (after_last_run line)
            in if nm = [] \<or> code = [] then None
               else Some \<lparr>name = nm, loadoutCode = code,
                          customization = default_customization\<rparr>))"

text \<open>
  Upserting a sequence of records, said without the operation of the code. The record of
  a name is the last of the sequence that bears it. From the empty store, every name
  stands once, where it first appeared, with its last record (\<open>latest_by_name\<close>). On a
  store, the first stored record of a name is replaced by the last incoming record of that
  name, every other stored record stays, and the incoming records of new names follow
  (\<open>upsert_all\<close>). When existing records are kept instead, the store stays as it is and
  the first incoming record of each new name follows (\<open>first_by_name\<close>).
\<close>

definition latest_named :: "string \<Rightarrow> CustomPreset list \<Rightarrow> CustomPreset option" where
  "latest_named nm records = find (\<lambda>q. name q = nm) (rev records)"

fun latest_by_name :: "CustomPreset list \<Rightarrow> CustomPreset list" where
  "latest_by_name [] = []"
| "latest_by_name (p # ps) =
     (case latest_named (name p) ps of Some q \<Rightarrow> q | None \<Rightarrow> p)
       # latest_by_name (filter (\<lambda>q. name q \<noteq> name p) ps)"

fun upsert_all :: "CustomPreset list \<Rightarrow> CustomPreset list \<Rightarrow> CustomPreset list" where
  "upsert_all [] incoming = latest_by_name incoming"
| "upsert_all (q # qs) incoming =
     (case latest_named (name q) incoming of Some p \<Rightarrow> p | None \<Rightarrow> q)
       # upsert_all qs (filter (\<lambda>p. name p \<noteq> name q) incoming)"

fun first_by_name :: "CustomPreset list \<Rightarrow> CustomPreset list" where
  "first_by_name [] = []"
| "first_by_name (p # ps) = p # first_by_name (filter (\<lambda>q. name q \<noteq> name p) ps)"

definition new_names :: "CustomPreset list \<Rightarrow> CustomPreset list \<Rightarrow> CustomPreset list" where
  "new_names store incoming = filter (\<lambda>p. name p \<notin> name ` set store) incoming"

text \<open>A text with no white space of \<^verbatim>\<open>TrimWhitespace\<close> at either end.\<close>

definition trimmed :: "string \<Rightarrow> bool" where
  "trimmed text \<longleftrightarrow> (text = [] \<or> (\<not> is_ws (hd text) \<and> \<not> is_ws (last text)))"

text \<open>The invariant of the spec's PaintColor: the three channels lie in \<open>[0, 1]\<close>.\<close>

definition in_unit_range :: "PresetPaintColor \<Rightarrow> bool" where
  "in_unit_range color \<longleftrightarrow>
     0 \<le> r color \<and> r color \<le> 1 \<and> 0 \<le> g color \<and> g color \<le> 1 \<and> 0 \<le> b color \<and> b color \<le> 1"

definition fields_trimmed :: "CustomPreset \<Rightarrow> bool" where
  "fields_trimmed preset \<longleftrightarrow>
     trimmed (name preset) \<and> trimmed (loadoutCode preset) \<and>
     trimmed (carLabel (customization preset)) \<and>
     trimmed (decalLabel (customization preset)) \<and>
     trimmed (wheelsLabel (customization preset))"

text \<open>
  What a save followed by a load can give back. A field of text survives when it has no
  white space at either end and contains neither the delimiter nor a newline; a channel
  comes back rounded to three decimals.
\<close>

definition storable_text :: "string \<Rightarrow> bool" where
  "storable_text t \<longleftrightarrow> trimmed t \<and> CHR ''|'' \<notin> set t \<and> CHR 0x0A \<notin> set t"

definition storable :: "CustomPreset \<Rightarrow> bool" where
  "storable preset \<longleftrightarrow>
     name preset \<noteq> [] \<and> loadoutCode preset \<noteq> [] \<and>
     hd (name preset) \<noteq> CHR ''#'' \<and>
     storable_text (name preset) \<and> storable_text (loadoutCode preset) \<and>
     storable_text (carLabel (customization preset)) \<and>
     storable_text (decalLabel (customization preset)) \<and>
     storable_text (wheelsLabel (customization preset)) \<and>
     in_unit_range (primaryColor (customization preset)) \<and>
     in_unit_range (accentColor (customization preset))"

definition round3 :: "real \<Rightarrow> real" where
  "round3 x = real_of_int (round_half_even (x * 1000)) / 1000"

definition quantize_color :: "PresetPaintColor \<Rightarrow> PresetPaintColor" where
  "quantize_color color = \<lparr>r = round3 (r color), g = round3 (g color), b = round3 (b color)\<rparr>"

definition quantize :: "CustomPreset \<Rightarrow> CustomPreset" where
  "quantize preset =
     preset\<lparr>customization := (customization preset)
       \<lparr>primaryColor := quantize_color (primaryColor (customization preset)),
        accentColor := quantize_color (accentColor (customization preset))\<rparr>\<rparr>"

definition close_color :: "PresetPaintColor \<Rightarrow> PresetPaintColor \<Rightarrow> bool" where
  "close_color c c' \<longleftrightarrow>
     \<bar>r c' - r c\<bar> \<le> 1 / 2000 \<and> \<bar>g c' - g c\<bar> \<le> 1 / 2000 \<and> \<bar>b c' - b c\<bar> \<le> 1 / 2000"

definition same_record :: "CustomPreset \<Rightarrow> CustomPreset \<Rightarrow> bool" where
  "same_record p p' \<longleftrightarrow>
     name p' = name p \<and> loadoutCode p' = loadoutCode p \<and>
     carLabel (customization p') = carLabel (customization p) \<and>
     decalLabel (customization p') = decalLabel (customization p) \<and>
     wheelsLabel (customization p') = wheelsLabel (customization p) \<and>
     paintFinishMatte (customization p') = paintFinishMatte (customization p) \<and>
     paintFinishPearlescent (customization p') = paintFinishPearlescent (customization p) \<and>
     close_color (primaryColor (customization p)) (primaryColor (customization p')) \<and>
     close_color (accentColor (customization p)) (accentColor (customization p'))"

section \<open>A sample manager\<close>

text \<open>
  A manager with one custom record, a vanilla file of a comment, a record and a line with
  no delimiter, and a storage file whose first line carries white space around its fields
  and whose second line has a single field.
\<close>

definition example_manager :: PresetManager where
  "example_manager =
     \<lparr>presets = [\<lparr>name = ''My Custom'', loadoutCode = ''CUSTOM-1'',
                   customization = default_customization\<rparr>],
      storageFilePath = ''./bakkesmod/data/ExpandedPresets/expanded_presets.cfg'',
      vanillaPresetsPath = ''./bakkesmod/data/presets.data'',
      log_lines = [],
      vanilla_file = Content (''# vanilla presets'' @ [CHR 0x0A] @
                              ''Team GT  RLCS-AAAA-BBBB-CCCC-DDDD'' @ [CHR 0x0A] @
                              ''Octane'' @ [CHR 0x0A]),
      storage_file = Content ('' Octane Classic |  CODE-1 |128,0,255|0.5,0.5,0.5| Fennec |''
                              @ [CHR 0x09] @ ''Stripes| OEM |1|0'' @ [CHR 0x0A] @
                              ''broken line'' @ [CHR 0x0A]),
      storage_dir_empty = False, storage_dir_exists = True,
      storage_dir_creatable = True, storage_file_writable = True\<rparr>"

text \<open>
  A store that holds the record \<^verbatim>\<open>Octane Classic\<close> and a catalog file, in the persisted
  format, with a record of that name, two records of the new name \<^verbatim>\<open>Fennec\<close> and one of the
  new name \<^verbatim>\<open>Dominus\<close>.
\<close>

definition octane_store :: PresetManager where
  "octane_store = example_manager\<lparr>presets :=
     [\<lparr>name = ''Octane Classic'', loadoutCode = ''OLD-CODE'',
       customization = default_customization\<rparr>]\<rparr>"

definition catalog_text :: string where
  "catalog_text = ''Fennec|F-1'' @ [CHR 0x0A] @ ''Octane Classic|NEW-CODE'' @ [CHR 0x0A] @
     ''Fennec|F-2'' @ [CHR 0x0A] @ ''Dominus|D-1'' @ [CHR 0x0A]"

definition catalog_example :: source_file where
  "catalog_example = Content catalog_text"

text \<open>
  A manager with two custom records and a vanilla file in which the name \<^verbatim>\<open>Team GT\<close>
  stands on two lines, with another record between them, a comment and a line with no
  delimiter.
\<close>

definition vanilla_store :: PresetManager where
  "vanilla_store = example_manager\<lparr>
     presets := [\<lparr>name = ''My Custom'', loadoutCode = ''CUSTOM-1'',
                  customization = default_customization\<rparr>,
                 \<lparr>name = ''Octane'', loadoutCode = ''OLD-OCTANE'',
                  customization = default_customization\<rparr>],
     vanilla_file := Content (''# vanilla presets'' @ [CHR 0x0A] @
                              ''Team GT  RLCS-AAAA'' @ [CHR 0x0A] @
                              ''Octane'' @ [CHR 0x09] @ ''RLCS-BBBB'' @ [CHR 0x0A] @
                              ''NoDelimiter'' @ [CHR 0x0A] @
                              ''Team GT  RLCS-CCCC'' @ [CHR 0x0A])\<rparr>"

text \<open>
  A record whose name begins with \<^verbatim>\<open>#\<close>, and a store of two records of which the first
  has a primary colour that is not a multiple of a thousandth.
\<close>

definition hash_preset :: CustomPreset where
  "hash_preset = \<lparr>name = ''#1 Octane'', loadoutCode = ''CODE-1'',
     customization = default_customization\<rparr>"

definition painted_store :: PresetManager where
  "painted_store = example_manager\<lparr>presets :=
     [\<lparr>name = ''Team GT'', loadoutCode = ''RLCS-AAAA-BBBB-CCCC-DDDD'',
       customization = default_customization
         \<lparr>primaryColor := \<lparr>r = 12345 / 100000, g = 1 / 2, b = 1\<rparr>,
          paintFinishMatte := True\<rparr>\<rparr>,
      \<lparr>name = ''My Custom'', loadoutCode = ''CUSTOM-1'',
       customization = default_customization\<rparr>]\<rparr>"

section \<open>Properties of the tokenizer\<close>

lemma getlines_Nil [simp]: "getlines d [] = []"
  by (simp add: getlines.simps)

lemma getlines_Cons:
  "getlines d (c # cs) =
     takeWhile (\<lambda>x. x \<noteq> d) (c # cs) # getlines d (drop 1 (dropWhile (\<lambda>x. x \<noteq> d) (c # cs)))"
  by (subst getlines.simps) simp

lemma getlines_delim [simp]: "getlines d (d # cs) = [] # getlines d cs"
  by (simp add: getlines_Cons)

lemma getlines_other:
  assumes "c \<noteq> d"
  shows "getlines d (c # cs) =
     (case getlines d cs of [] \<Rightarrow> [[c]] | t # ts \<Rightarrow> (c # t) # ts)"
proof (cases cs)
  case Nil
  then show ?thesis using assms by (simp add: getlines_Cons)
next
  case (Cons x xs)
  then show ?thesis using assms by (simp add: getlines_Cons)
qed

lemma split_fields_ne [simp]: "split_fields d s \<noteq> []"
  by (induction s) (auto split: list.splits)

lemma length_split_fields:
  "length (split_fields d s) = Suc (length (filter (\<lambda>x. x = d) s))"
  by (induction s) (auto split: list.splits)

lemma split_fields_two:
  assumes "s \<noteq> []" "last s = d"
  obtains f f' fs where "split_fields d s = f # f' # fs"
proof -
  have "d \<in> set s" using assms last_in_set by blast
  then have "filter (\<lambda>x. x = d) s \<noteq> []"
    by (simp add: filter_empty_conv)
  then have "2 \<le> length (split_fields d s)"
    by (cases "filter (\<lambda>x. x = d) s") (simp_all add: length_split_fields)
  then show ?thesis using that
    by (cases "split_fields d s" rule: list.exhaust [case_names Nil Cons])
       (auto simp: Suc_le_eq length_Suc_conv neq_Nil_conv)
qed

lemma getlines_split:
  "getlines d line = (if line = [] \<or> last line = d then butlast (split_fields d line) else split_fields d line)"
proof (induction line)
  case Nil
  then show ?case by simp
next
  case (Cons c cs)
  show ?case
  proof (cases "cs = []")
    case True
    then show ?thesis by (cases "c = d") (simp_all add: getlines_other)
  next
    case ne: False
    show ?thesis
    proof (cases "last cs = d")
      case True
      obtain f f' fs where sp: "split_fields d cs = f # f' # fs"
        using split_fields_two [OF ne True] by blast
      with Cons ne True have "getlines d cs = f # butlast (f' # fs)" by simp
      then show ?thesis using ne True sp
        by (cases "c = d") (simp_all add: getlines_other)
    next
      case False
      with Cons ne have "getlines d cs = split_fields d cs" by simp
      then show ?thesis using ne False
        by (cases "c = d") (simp_all add: getlines_other)
    qed
  qed
qed

text \<open>
  Claim C6, as the code has it: \<^verbatim>\<open>TokenizeLine\<close> returns the fields of the line in order
  and keeps the empty fields between consecutive delimiters and before a leading one, but
  it does not keep an empty field at the end: for a line that ends with the delimiter
  (and for the empty line) the result is the split of the spec without its last, empty,
  field; for every other line it is the split of the spec. The same holds of the loop
  over \<^verbatim>\<open>std::getline\<close> for any delimiter, as used for the components of a colour token
  and the lines of a file.
\<close>

theorem TokenizeLine_fields:
  "TokenizeLine line =
     (if line = [] \<or> last line = CHR ''|'' then butlast (split_fields CHR ''|'' line)
      else split_fields CHR ''|'' line) \<and>
   getlines d line =
     (if line = [] \<or> last line = d then butlast (split_fields d line)
      else split_fields d line)"
  unfolding TokenizeLine_def using getlines_split [of "CHR ''|''" line] getlines_split [of d line]
  by (rule conjI)

theorem TokenizeLine_fields_witness:
  "TokenizeLine ''a||b|'' = [''a'', [], ''b''] \<and> TokenizeLine ''a||b'' = [''a'', [], ''b'']"
  using TokenizeLine_fields [of "''a||b|''" "CHR ''|''"] TokenizeLine_fields [of "''a||b''" "CHR ''|''"]
  by simp

text \<open>
  Claim C6 as the spec states it fails: the line \<^verbatim>\<open>a|\<close> ends with the delimiter, the
  split of the spec has the two fields \<^verbatim>\<open>a\<close> and the empty one, and \<^verbatim>\<open>TokenizeLine\<close>
  returns the single field \<^verbatim>\<open>a\<close>.
\<close>

theorem TokenizeLine_trailing_counterexample:
  "TokenizeLine ''a|'' = [''a''] \<and> split_fields CHR ''|'' ''a|'' = [''a'', []] \<and>
   TokenizeLine ''a|'' \<noteq> split_fields CHR ''|'' ''a|''"
  by (simp add: TokenizeLine_def getlines_Cons)

section \<open>Properties of the collection\<close>

lemma FindPresetIndex_le: "FindPresetIndex s nm \<le> length s"
  by (induction s) auto

lemma FindPresetIndex_update:
  "name p = nm \<Longrightarrow> FindPresetIndex (s[FindPresetIndex s nm := p]) nm = FindPresetIndex s nm"
  by (induction s) auto

lemma FindPresetIndex_append:
  "name p = nm \<Longrightarrow> FindPresetIndex s nm = length s \<Longrightarrow> FindPresetIndex (s @ [p]) nm = length s"
  by (induction s) auto

lemma FindPresetIndex_AddOrUpdate:
  "FindPresetIndex (AddOrUpdatePreset s p) (name p) = FindPresetIndex s (name p)"
  using FindPresetIndex_le [of s "name p"]
  by (auto simp: AddOrUpdatePreset_def Let_def FindPresetIndex_update FindPresetIndex_append)

lemma FindPresetIndex_AddOrUpdate_lt:
  "FindPresetIndex s (name p) < length (AddOrUpdatePreset s p)"
  using FindPresetIndex_le [of s "name p"]
  by (auto simp: AddOrUpdatePreset_def Let_def)

lemma AddOrUpdate_nth:
  "AddOrUpdatePreset s p ! FindPresetIndex s (name p) = p"
proof (cases "FindPresetIndex s (name p) < length s")
  case True
  then show ?thesis by (simp add: AddOrUpdatePreset_def)
next
  case False
  then have "FindPresetIndex s (name p) = length s"
    using FindPresetIndex_le [of s "name p"] by simp
  then show ?thesis by (simp add: AddOrUpdatePreset_def)
qed

lemma FindPreset_index:
  "FindPresetIndex s nm < length s \<Longrightarrow> FindPreset s nm = Some (s ! FindPresetIndex s nm)"
  unfolding FindPreset_def by (induction s) auto

text \<open>
  Claim C8: for every collection \<open>s\<close> and records \<open>p1\<close>, \<open>p2\<close> of the same name, after
  upserting \<open>p1\<close> and then \<open>p2\<close> the collection is as long as after the first call, the
  record stored under the name is \<open>p2\<close>, it stands at the index where the first call
  put \<open>p1\<close>, and no other position has changed.
\<close>

theorem upsert_twice:
  assumes "name p2 = name p1"
  shows "let s1 = AddOrUpdatePreset s p1; s2 = AddOrUpdatePreset s1 p2;
             i = FindPresetIndex s1 (name p1)
         in length s2 = length s1 \<and> i < length s1 \<and> s1 ! i = p1 \<and>
            s2 = s1[i := p2] \<and> FindPresetIndex s2 (name p2) = i \<and> s2 ! i = p2 \<and>
            FindPreset s2 (name p2) = Some p2"
proof -
  define s1 where "s1 = AddOrUpdatePreset s p1"
  define i where "i = FindPresetIndex s1 (name p1)"
  have i: "i = FindPresetIndex s (name p1)"
    by (simp add: i_def s1_def FindPresetIndex_AddOrUpdate)
  have lt: "i < length s1"
    by (simp add: i s1_def FindPresetIndex_AddOrUpdate_lt)
  have at: "s1 ! i = p1"
    by (simp add: i s1_def AddOrUpdate_nth)
  have s2: "AddOrUpdatePreset s1 p2 = s1[i := p2]"
    using lt assms by (simp add: AddOrUpdatePreset_def i_def)
  have idx: "FindPresetIndex (s1[i := p2]) (name p2) = i"
    using assms by (simp add: i_def FindPresetIndex_update)
  have "FindPreset (s1[i := p2]) (name p2) = Some p2"
    using FindPreset_index [of "s1[i := p2]" "name p2"] lt idx by simp
  then show ?thesis
    using lt at s2 idx by (simp add: Let_def s1_def [symmetric] i_def [symmetric])
qed

theorem upsert_twice_witness:
  "(let p0 = \<lparr>name = ''Dominus'', loadoutCode = ''D0'', customization = default_customization\<rparr>;
        p1 = \<lparr>name = ''Octane Classic'', loadoutCode = ''A1'', customization = default_customization\<rparr>;
        p2 = \<lparr>name = ''Octane Classic'', loadoutCode = ''B2'', customization = default_customization\<rparr>
    in name p2 = name p1 \<and>
       AddOrUpdatePreset [p0] p1 = [p0, p1] \<and>
       AddOrUpdatePreset (AddOrUpdatePreset [p0] p1) p2 = [p0, p2] \<and>
       FindPresetIndex (AddOrUpdatePreset (AddOrUpdatePreset [p0] p1) p2) ''Octane Classic'' = 1)"
  using upsert_twice
    [of "\<lparr>name = ''Octane Classic'', loadoutCode = ''B2'', customization = default_customization\<rparr>"
        "\<lparr>name = ''Octane Classic'', loadoutCode = ''A1'', customization = default_customization\<rparr>"
        "[\<lparr>name = ''Dominus'', loadoutCode = ''D0'', customization = default_customization\<rparr>]"]
  by (simp add: Let_def AddOrUpdatePreset_def)

section \<open>Upserting a sequence of records\<close>

lemma AddOrUpdatePreset_Nil: "AddOrUpdatePreset [] p = [p]"
  by (simp add: AddOrUpdatePreset_def)

lemma AddOrUpdatePreset_Cons:
  "AddOrUpdatePreset (q # qs) p =
     (if name q = name p then p # qs else q # AddOrUpdatePreset qs p)"
  by (simp add: AddOrUpdatePreset_def)

lemma FindPresetIndex_lt_iff: "FindPresetIndex ps nm < length ps \<longleftrightarrow> nm \<in> name ` set ps"
  by (induction ps) auto

lemma latest_named_Nil: "latest_named nm [] = None"
  by (simp add: latest_named_def)

lemma find_snoc:
  "find P (xs @ [x]) = (case find P xs of Some y \<Rightarrow> Some y | None \<Rightarrow> if P x then Some x else None)"
  by (induction xs) auto

lemma latest_named_Cons:
  "latest_named nm (p # ps) =
     (case latest_named nm ps of
        Some q \<Rightarrow> Some q
      | None \<Rightarrow> if name p = nm then Some p else None)"
  by (simp add: latest_named_def find_snoc)

lemma latest_named_name: "latest_named nm ps = Some q \<Longrightarrow> name q = nm \<and> q \<in> set ps"
  by (induction ps) (auto simp: latest_named_Nil latest_named_Cons split: option.splits if_splits)

lemma latest_named_None: "latest_named nm ps = None \<longleftrightarrow> nm \<notin> name ` set ps"
  unfolding latest_named_def by (auto simp: find_None_iff)

lemma latest_named_filter:
  "nm \<noteq> nm' \<Longrightarrow> latest_named nm (filter (\<lambda>p. name p \<noteq> nm') ps) = latest_named nm ps"
  by (induction ps) (auto simp: latest_named_Cons latest_named_Nil split: option.splits)

lemma upsert_all_Nil: "upsert_all acc [] = acc"
  by (induction acc) (simp_all add: latest_named_Nil)

lemma upsert_all_AddOrUpdatePreset:
  "upsert_all (AddOrUpdatePreset acc p) ps = upsert_all acc (p # ps)"
proof (induction acc arbitrary: ps)
  case Nil
  show ?case by (simp add: AddOrUpdatePreset_Nil latest_named_Nil)
next
  case (Cons q qs)
  show ?case
  proof (cases "name q = name p")
    case True
    then show ?thesis
      by (simp add: AddOrUpdatePreset_Cons latest_named_Cons split: option.splits)
  next
    case False
    then show ?thesis
      using Cons.IH [of "filter (\<lambda>p. name p \<noteq> name q) ps"]
      by (simp add: AddOrUpdatePreset_Cons latest_named_Cons split: option.splits)
  qed
qed

lemma foldl_AddOrUpdatePreset: "foldl AddOrUpdatePreset acc ps = upsert_all acc ps"
  by (induction ps arbitrary: acc) (simp_all add: upsert_all_Nil upsert_all_AddOrUpdatePreset)

lemma name_latest_head:
  "name (case latest_named (name p) ps of Some q \<Rightarrow> q | None \<Rightarrow> p) = name p"
  by (auto split: option.splits dest: latest_named_name)

lemma names_latest_by_name: "name ` set (latest_by_name ps) = name ` set ps"
  by (induction ps rule: latest_by_name.induct) (auto simp: name_latest_head)

lemma distinct_latest_by_name: "distinct (map name (latest_by_name ps))"
proof (induction ps rule: latest_by_name.induct)
  case 1
  show ?case by simp
next
  case (2 p ps)
  have "name p \<notin> name ` set (latest_by_name (filter (\<lambda>q. name q \<noteq> name p) ps))"
    unfolding names_latest_by_name by auto
  then show ?case using 2 by (simp add: name_latest_head)
qed

lemma latest_by_name_latest:
  "x \<in> set (latest_by_name ps) \<Longrightarrow> latest_named (name x) ps = Some x"
proof (induction ps rule: latest_by_name.induct)
  case 1
  then show ?case by simp
next
  case (2 p ps)
  show ?case
  proof (cases "x \<in> set (latest_by_name (filter (\<lambda>q. name q \<noteq> name p) ps))")
    case True
    then have "name x \<in> name ` set (filter (\<lambda>q. name q \<noteq> name p) ps)"
      using names_latest_by_name by blast
    then have ne: "name x \<noteq> name p" by auto
    have "latest_named (name x) (filter (\<lambda>q. name q \<noteq> name p) ps) = Some x"
      using True 2 by simp
    then have "latest_named (name x) ps = Some x"
      using ne by (simp add: latest_named_filter)
    then show ?thesis by (simp add: latest_named_Cons)
  next
    case False
    then have x: "x = (case latest_named (name p) ps of Some q \<Rightarrow> q | None \<Rightarrow> p)"
      using "2.prems" by simp
    then have "name x = name p" by (simp add: name_latest_head)
    then show ?thesis using x by (simp add: latest_named_Cons split: option.splits)
  qed
qed

lemma remdups_snoc: "remdups (ys @ [x]) = filter (\<lambda>y. y \<noteq> x) (remdups ys) @ [x]"
  by (induction ys) auto

lemma first_names_Cons:
  "rev (remdups (rev (x # xs))) = x # rev (remdups (rev (filter (\<lambda>y. y \<noteq> x) xs)))"
  by (simp add: remdups_snoc rev_filter remdups_filter)

lemma names_order_latest_by_name:
  "map name (latest_by_name ps) = rev (remdups (rev (map name ps)))"
proof (induction ps rule: latest_by_name.induct)
  case 1
  show ?case by simp
next
  case (2 p ps)
  have "map name (filter (\<lambda>q. name q \<noteq> name p) ps) = filter (\<lambda>y. y \<noteq> name p) (map name ps)"
    by (simp add: filter_map comp_def)
  then show ?case using 2 by (simp add: name_latest_head first_names_Cons del: rev.simps)
qed

section \<open>Properties of \<^verbatim>\<open>TrimWhitespace\<close>\<close>

lemma find_first_of_None: "find_first_of P s = None \<longleftrightarrow> (\<forall>c\<in>set s. \<not> P c)"
  by (induction s) auto

lemma find_first_of_Some:
  "find_first_of P s = Some i \<Longrightarrow> i = length (takeWhile (\<lambda>c. \<not> P c) s)"
  by (induction s arbitrary: i) (auto split: if_splits)

lemma find_last_of_None: "find_last_of P s = None \<longleftrightarrow> (\<forall>c\<in>set s. \<not> P c)"
  by (induction s) (auto split: option.splits)

lemma find_last_of_Some:
  "find_last_of P s = Some i \<Longrightarrow> Suc i = length (dropWhile (\<lambda>c. \<not> P c) (rev s))"
proof (induction s arbitrary: i)
  case Nil
  then show ?case by simp
next
  case (Cons c cs)
  show ?case
  proof (cases "find_last_of P cs")
    case None
    then have "\<forall>x\<in>set cs. \<not> P x" by (simp add: find_last_of_None)
    then have "dropWhile (\<lambda>c. \<not> P c) (rev cs @ [c]) = dropWhile (\<lambda>c. \<not> P c) [c]"
      by (intro dropWhile_append2) auto
    then show ?thesis using Cons.prems None by (auto split: if_splits)
  next
    case (Some j)
    then have "\<not> (\<forall>x\<in>set cs. \<not> P x)" using find_last_of_None [of P cs] by simp
    then obtain x where "x \<in> set (rev cs)" "\<not> \<not> P x" by auto
    then have "dropWhile (\<lambda>c. \<not> P c) (rev cs @ [c]) = dropWhile (\<lambda>c. \<not> P c) (rev cs) @ [c]"
      by (rule dropWhile_append1)
    then show ?thesis using Cons.prems Some Cons.IH [of j] by simp
  qed
qed

lemma strip_commute:
  "rev (dropWhile P (rev (dropWhile P s))) = dropWhile P (rev (dropWhile P (rev s)))"
proof (cases "\<forall>x\<in>set s. P x")
  case True
  then have e: "dropWhile P s = []" "dropWhile P (rev s) = []"
    by simp_all
  show ?thesis by (simp only: e rev.simps dropWhile.simps)
next
  case False
  define u where "u = rev (dropWhile P (rev s))"
  define w where "w = rev (takeWhile P (rev s))"
  have s: "s = u @ w"
    by (metis rev_append rev_rev_ident takeWhile_dropWhile_id u_def w_def)
  have w: "\<forall>x\<in>set w. P x" unfolding w_def by (auto dest: set_takeWhileD)
  with False s obtain x where x: "x \<in> set u" "\<not> P x" by auto
  have last: "u \<noteq> [] \<and> \<not> P (last u)"
    unfolding u_def using False
    by (metis (no_types, lifting) dropWhile_eq_Nil_conv hd_dropWhile last_rev rev_is_Nil_conv set_rev)
  have 1: "dropWhile P s = dropWhile P u @ w"
    unfolding s using x by (rule dropWhile_append1)
  have ne: "dropWhile P u \<noteq> []" using x by (auto simp: dropWhile_eq_Nil_conv)
  have "last (dropWhile P u) = last u"
    using ne by (metis last_appendR takeWhile_dropWhile_id)
  then have hd: "\<not> P (hd (rev (dropWhile P u)))"
    using last ne by (simp add: hd_rev)
  have "dropWhile P (rev (dropWhile P s)) = dropWhile P (rev w @ rev (dropWhile P u))"
    by (simp add: 1)
  also have "\<dots> = dropWhile P (rev (dropWhile P u))"
    using w by (intro dropWhile_append2) auto
  also have "\<dots> = rev (dropWhile P u)"
    using hd ne by (cases "rev (dropWhile P u)") auto
  finally show ?thesis by (simp add: u_def)
qed

lemma takeWhile_strip:
  assumes "\<not> (\<forall>x\<in>set s. P x)"
  shows "takeWhile P (rev (dropWhile P (rev s))) = takeWhile P s"
    and "\<exists>x\<in>set (rev (dropWhile P (rev s))). \<not> P x"
proof -
  define u where "u = rev (dropWhile P (rev s))"
  define w where "w = rev (takeWhile P (rev s))"
  have s: "s = u @ w"
    by (metis rev_append rev_rev_ident takeWhile_dropWhile_id u_def w_def)
  have w: "\<forall>x\<in>set w. P x" unfolding w_def by (auto dest: set_takeWhileD)
  with assms s obtain x where x: "x \<in> set u" "\<not> P x" by auto
  have "takeWhile P (u @ w) = takeWhile P u"
    using x by (rule takeWhile_append1)
  then have "takeWhile P s = takeWhile P u"
    unfolding s [symmetric] .
  then show "takeWhile P (rev (dropWhile P (rev s))) = takeWhile P s"
    by (simp only: u_def)
  show "\<exists>x\<in>set (rev (dropWhile P (rev s))). \<not> P x"
    using x unfolding u_def by blast
qed

lemma TrimWhitespace_eq: "TrimWhitespace s = rev (dropWhile is_ws (rev (dropWhile is_ws s)))"
proof (cases "find_first_of (\<lambda>c. \<not> is_ws c) s")
  case None
  then have "\<forall>c\<in>set s. is_ws c" by (simp add: find_first_of_None)
  then have e: "dropWhile is_ws s = []" by simp
  show ?thesis
    by (simp only: e rev.simps dropWhile.simps TrimWhitespace_def find_first_not_of_def None option.case)
next
  case (Some a)
  then have a: "a = length (takeWhile is_ws s)"
    using find_first_of_Some [of "\<lambda>c. \<not> is_ws c" s a] by simp
  have nall: "\<not> (\<forall>c\<in>set s. is_ws c)"
    using Some find_first_of_None [of "\<lambda>c. \<not> is_ws c" s] by auto
  then obtain l where l: "find_last_of (\<lambda>c. \<not> is_ws c) s = Some l"
    using find_last_of_None [of "\<lambda>c. \<not> is_ws c" s]
    by (cases "find_last_of (\<lambda>c. \<not> is_ws c) s") auto
  then have sl: "Suc l = length (dropWhile is_ws (rev s))"
    using find_last_of_Some [of "\<lambda>c. \<not> is_ws c" s l] by simp
  define u where "u = rev (dropWhile is_ws (rev s))"
  have lu: "length u = Suc l" by (simp add: u_def sl)
  have "rev (takeWhile is_ws (rev s) @ dropWhile is_ws (rev s)) = s" by simp
  then have "u @ rev (takeWhile is_ws (rev s)) = s"
    unfolding u_def rev_append .
  then have u: "u = take (Suc l) s"
    using lu by (metis append_eq_conv_conj)
  have tw: "takeWhile is_ws u = takeWhile is_ws s"
    unfolding u_def using nall by (rule takeWhile_strip)
  have "\<exists>x\<in>set u. \<not> is_ws x"
    unfolding u_def using nall by (rule takeWhile_strip)
  then have "takeWhile is_ws u \<noteq> u"
    by (simp add: takeWhile_eq_all_conv)
  then have "length (takeWhile is_ws u) < length u"
    by (metis length_takeWhile_le le_neq_implies_less takeWhile_eq_take take_all_iff order_refl)
  then have al: "a \<le> l" using a tw lu by simp
  have "dropWhile is_ws u = drop a u"
    using a tw by (simp add: dropWhile_eq_drop)
  also have "\<dots> = take (Suc l - a) (drop a s)"
    unfolding u by (rule drop_take)
  also have "\<dots> = TrimWhitespace s"
    using al Some l by (simp add: TrimWhitespace_def find_first_not_of_def find_last_not_of_def substr_def Suc_diff_le)
  finally show ?thesis
    by (simp add: strip_commute u_def)
qed

lemma trimmed_TrimWhitespace: "trimmed (TrimWhitespace s)"
proof (cases "dropWhile is_ws s = []")
  case True
  then show ?thesis by (simp only: TrimWhitespace_eq trimmed_def rev.simps dropWhile.simps simp_thms)
next
  case False
  then have nall: "\<not> (\<forall>x\<in>set s. is_ws x)" by simp
  define t where "t = dropWhile is_ws s"
  define v where "v = dropWhile is_ws (rev t)"
  have hd_t: "\<not> is_ws (hd t)" using False unfolding t_def by (rule hd_dropWhile)
  have "\<not> (\<forall>x\<in>set (rev t). is_ws x)"
    using hd_t False by (metis hd_in_set set_rev t_def)
  then have v_ne: "v \<noteq> []" unfolding v_def by simp
  then have hd_v: "\<not> is_ws (hd v)" unfolding v_def by (rule hd_dropWhile)
  have "TrimWhitespace s = rev v" by (simp add: TrimWhitespace_eq t_def v_def)
  moreover have "last (rev v) = hd v" using v_ne by (simp add: last_rev)
  moreover have "hd (rev v) = hd t"
  proof -
    have "rev (takeWhile is_ws (rev t) @ dropWhile is_ws (rev t)) = t" by simp
    then have "rev v @ rev (takeWhile is_ws (rev t)) = t"
      unfolding v_def rev_append .
    then show ?thesis using v_ne by (metis hd_append2 rev_is_Nil_conv)
  qed
  ultimately show ?thesis using hd_t hd_v v_ne by (simp add: trimmed_def)
qed

section \<open>Properties of the vanilla format\<close>

lemma TrimWhitespace_all_ws: "(\<forall>c\<in>set s. is_ws c) \<Longrightarrow> TrimWhitespace s = []"
proof -
  assume "\<forall>c\<in>set s. is_ws c"
  then have e: "dropWhile is_ws s = []" by simp
  show ?thesis by (simp only: TrimWhitespace_eq e rev.simps dropWhile.simps)
qed

lemma TrimWhitespace_append_ws:
  assumes "\<forall>c\<in>set w. is_ws c"
  shows "TrimWhitespace (x @ w) = TrimWhitespace x"
proof (cases "\<forall>c\<in>set x. is_ws c")
  case True
  then have "\<forall>c\<in>set (x @ w). is_ws c" using assms by auto
  then show ?thesis using True by (simp only: TrimWhitespace_all_ws)
next
  case False
  then obtain c where c: "c \<in> set x" "\<not> is_ws c" by auto
  have 1: "dropWhile is_ws (x @ w) = dropWhile is_ws x @ w"
    using c by (rule dropWhile_append1)
  have "dropWhile is_ws (rev w @ rev (dropWhile is_ws x)) = dropWhile is_ws (rev (dropWhile is_ws x))"
    using assms by (intro dropWhile_append2) auto
  then show ?thesis by (simp only: TrimWhitespace_eq 1 rev_append)
qed

lemma TrimWhitespace_trimmed: "trimmed s \<Longrightarrow> TrimWhitespace s = s"
proof (cases s)
  case Nil
  then show ?thesis by (simp add: TrimWhitespace_eq)
next
  case (Cons c cs)
  assume "trimmed s"
  then have h: "\<not> is_ws (hd s)" and l: "\<not> is_ws (last s)" using Cons by (auto simp: trimmed_def)
  have 1: "dropWhile is_ws s = s" using h Cons by simp
  have "hd (rev s) = last s" using Cons by (simp add: hd_rev)
  then have "dropWhile is_ws (rev s) = rev s" using l Cons by (cases "rev s") auto
  then show ?thesis by (simp add: TrimWhitespace_eq 1)
qed

lemma set_TrimWhitespace: "set (TrimWhitespace s) \<subseteq> set s"
proof -
  have "set (TrimWhitespace s) \<subseteq> set (dropWhile is_ws s)"
    unfolding TrimWhitespace_eq using set_dropWhileD by fastforce
  then show ?thesis using set_dropWhileD by fastforce
qed

lemma is_tab_or_space_ws: "is_tab_or_space c \<Longrightarrow> is_ws c"
  by (auto simp: is_tab_or_space_def is_ws_def)

lemma find_last_of_split:
  assumes "find_last_of is_tab_or_space line = Some p"
  shows "drop (Suc p) line = after_last_run line"
    and "TrimWhitespace (take p line) = TrimWhitespace (before_last_run line)"
proof -
  define D where "D = dropWhile (\<lambda>c. \<not> is_tab_or_space c) (rev line)"
  have len: "Suc p = length D"
    unfolding D_def using assms by (rule find_last_of_Some)
  then have ne: "D \<noteq> []" by auto
  have hdD: "is_tab_or_space (hd D)"
    using ne hd_dropWhile [of "\<lambda>c. \<not> is_tab_or_space c" "rev line"] unfolding D_def by simp
  have "rev (takeWhile (\<lambda>c. \<not> is_tab_or_space c) (rev line) @ D) = line"
    unfolding D_def by simp
  then have dec: "rev D @ after_last_run line = line"
    unfolding rev_append after_last_run_def .
  then have pre: "rev D = take (Suc p) line" and "after_last_run line = drop (Suc p) line"
    using len by (simp_all add: append_eq_conv_conj)
  then show "drop (Suc p) line = after_last_run line" by simp
  have "take p line = butlast (rev D)"
    unfolding pre using dec len
    by (metis butlast_take diff_Suc_1 le_add1 length_append length_rev)
  also have "\<dots> = rev (tl D)" by (simp add: butlast_rev)
  also have "\<dots> = rev (takeWhile is_tab_or_space (tl D) @ dropWhile is_tab_or_space (tl D))"
    by simp
  also have "\<dots> = rev (dropWhile is_tab_or_space (tl D)) @ rev (takeWhile is_tab_or_space (tl D))"
    by (rule rev_append)
  finally have tk: "take p line =
      rev (dropWhile is_tab_or_space (tl D)) @ rev (takeWhile is_tab_or_space (tl D))" .
  have "dropWhile is_tab_or_space D = dropWhile is_tab_or_space (tl D)"
    using ne hdD by (cases D) auto
  then have b: "before_last_run line = rev (dropWhile is_tab_or_space (tl D))"
    by (simp add: before_last_run_def D_def)
  have "\<forall>c\<in>set (rev (takeWhile is_tab_or_space (tl D))). is_ws c"
    by (auto dest: set_takeWhileD is_tab_or_space_ws)
  then show "TrimWhitespace (take p line) = TrimWhitespace (before_last_run line)"
    unfolding tk b by (rule TrimWhitespace_append_ws)
qed

text \<open>
  Claim C7, as the code has it: the loop first removes the white space around the line and
  skips a blank or \<^verbatim>\<open>#\<close> line; with \<open>line\<close> the text that is left, the record's name is
  what stands before the last run of tabs and spaces of \<open>line\<close> and its code is what
  stands after it, both trimmed; no record is produced when \<open>line\<close> has no tab or space
  or when one of the two fields is empty. A line that has no tab or space at all produces
  no record either.
\<close>

theorem vanilla_line_fields:
  "vanilla_line raw =
     (let line = TrimWhitespace raw
      in if line = [] \<or> hd line = CHR ''#'' then None
         else if \<not> (\<exists>c\<in>set line. is_tab_or_space c) then None
         else (let nm = TrimWhitespace (before_last_run line);
                   code = TrimWhitespace (after_last_run line)
               in if nm = [] \<or> code = [] then None
                  else Some \<lparr>name = nm, loadoutCode = code,
                             customization = default_customization\<rparr>)) \<and>
   ((\<forall>c\<in>set raw. \<not> is_tab_or_space c) \<longrightarrow> vanilla_line raw = None)"
proof (cases "find_last_of is_tab_or_space (TrimWhitespace raw)")
  case None
  then have "\<not> (\<exists>c\<in>set (TrimWhitespace raw). is_tab_or_space c)"
    by (simp add: find_last_of_None)
  then show ?thesis using None by (simp add: vanilla_line_def Let_def)
next
  case (Some p)
  then have ex: "\<exists>c\<in>set (TrimWhitespace raw). is_tab_or_space c"
    using find_last_of_None [of is_tab_or_space "TrimWhitespace raw"] by auto
  then have "\<not> (\<forall>c\<in>set raw. \<not> is_tab_or_space c)"
    using set_TrimWhitespace [of raw] by blast
  then show ?thesis
    using ex Some find_last_of_split [OF Some]
    by (simp add: vanilla_line_def Let_def substr_def)
qed

theorem vanilla_line_fields_witness:
  "vanilla_line ''Team GT  RLCS-AAAA-BBBB-CCCC-DDDD'' =
     Some \<lparr>name = ''Team GT'', loadoutCode = ''RLCS-AAAA-BBBB-CCCC-DDDD'',
           customization = default_customization\<rparr> \<and>
   vanilla_line ''Octane'' = None"
proof -
  have t: "TrimWhitespace ''Team GT  RLCS-AAAA-BBBB-CCCC-DDDD'' = ''Team GT  RLCS-AAAA-BBBB-CCCC-DDDD''"
    by code_simp
  have n: "TrimWhitespace (before_last_run ''Team GT  RLCS-AAAA-BBBB-CCCC-DDDD'') = ''Team GT''"
    by code_simp
  have c: "TrimWhitespace (after_last_run ''Team GT  RLCS-AAAA-BBBB-CCCC-DDDD'') = ''RLCS-AAAA-BBBB-CCCC-DDDD''"
    by code_simp
  have a: "vanilla_line ''Team GT  RLCS-AAAA-BBBB-CCCC-DDDD'' =
     Some \<lparr>name = ''Team GT'', loadoutCode = ''RLCS-AAAA-BBBB-CCCC-DDDD'',
           customization = default_customization\<rparr>"
    by (simp only: vanilla_line_fields [of "''Team GT  RLCS-AAAA-BBBB-CCCC-DDDD''", THEN conjunct1]
          t n c Let_def)
       (simp add: is_tab_or_space_def)
  have o: "\<forall>c\<in>set ''Octane''. \<not> is_tab_or_space c"
    by (simp add: is_tab_or_space_def)
  have b: "vanilla_line ''Octane'' = None"
    using vanilla_line_fields [of "''Octane''", THEN conjunct2] o by (rule mp)
  show ?thesis using a b by (rule conjI)
qed

text \<open>
  The same in terms of \<open>vanilla_fields\<close>: the code applies the rule of the spec to the
  trimmed line, not to the line as it stands.
\<close>

lemma vanilla_line_trimmed_fields:
  "vanilla_line raw =
     (let line = TrimWhitespace raw
      in if line = [] \<or> hd line = CHR ''#'' then None else vanilla_fields line)"
proof (cases "find_last_of is_tab_or_space (TrimWhitespace raw)")
  case None
  then have "\<not> (\<exists>c\<in>set (TrimWhitespace raw). is_tab_or_space c)"
    by (simp add: find_last_of_None)
  then show ?thesis using None by (simp add: vanilla_line_def vanilla_fields_def Let_def)
next
  case (Some p)
  then have "\<exists>c\<in>set (TrimWhitespace raw). is_tab_or_space c"
    using find_last_of_None [of is_tab_or_space "TrimWhitespace raw"] by auto
  then show ?thesis
    using Some find_last_of_split [OF Some]
    by (simp add: vanilla_line_def vanilla_fields_def Let_def substr_def)
qed

text \<open>
  Claim C7 as the spec states it fails: the line \<^verbatim>\<open>Team GT RLCS-1\<close> followed by a space is
  neither blank nor a comment; its last run of tabs and spaces is the final space, so the
  text after it is empty and the rule of the claim discards the line; the code trims the
  line first and produces the record.
\<close>

theorem vanilla_line_trailing_counterexample:
  "TrimWhitespace (after_last_run ''Team GT RLCS-1 '') = [] \<and>
   vanilla_fields ''Team GT RLCS-1 '' = None \<and>
   vanilla_line ''Team GT RLCS-1 '' =
     Some \<lparr>name = ''Team GT'', loadoutCode = ''RLCS-1'', customization = default_customization\<rparr>"
  by code_simp

section \<open>Properties of the two imports\<close>

lemma storage_customization_fields:
  "primaryColor (storage_customization stof tokens) =
     (if length tokens \<ge> 3 then ParseColorToken stof (tokens ! 2)
      else primaryColor default_customization)"
  "accentColor (storage_customization stof tokens) =
     (if length tokens \<ge> 4 then ParseColorToken stof (tokens ! 3)
      else accentColor default_customization)"
  "carLabel (storage_customization stof tokens) =
     (if length tokens \<ge> 5 then TrimWhitespace (tokens ! 4) else ''Octane'')"
  "decalLabel (storage_customization stof tokens) =
     (if length tokens \<ge> 6 then TrimWhitespace (tokens ! 5) else ''None'')"
  "wheelsLabel (storage_customization stof tokens) =
     (if length tokens \<ge> 7 then TrimWhitespace (tokens ! 6) else ''OEM'')"
  "paintFinishMatte (storage_customization stof tokens) =
     (length tokens \<ge> 8 \<and> (tokens ! 7 = ''1'' \<or> tokens ! 7 = ''true'' \<or> tokens ! 7 = ''matte''))"
  "paintFinishPearlescent (storage_customization stof tokens) =
     (length tokens \<ge> 9 \<and> (tokens ! 8 = ''1'' \<or> tokens ! 8 = ''true'' \<or> tokens ! 8 = ''pearlescent''))"
  by (simp_all add: storage_customization_def Let_def default_customization_def)

lemma trimmed_defaults: "trimmed ''Octane''" "trimmed ''None''" "trimmed ''OEM''"
  by (simp_all add: trimmed_def is_ws_def)

lemma vanilla_line_trimmed:
  assumes "vanilla_line raw = Some preset"
  shows "fields_trimmed preset"
proof -
  obtain p where "preset = \<lparr>name = TrimWhitespace (substr (TrimWhitespace raw) 0 p),
      loadoutCode = TrimWhitespace (drop (p + 1) (TrimWhitespace raw)),
      customization = default_customization\<rparr>"
    using assms by (auto simp: vanilla_line_def Let_def split: if_splits option.splits)
  then show ?thesis
    by (simp add: fields_trimmed_def trimmed_TrimWhitespace default_customization_def trimmed_defaults)
qed

lemma storage_line_trimmed:
  assumes "storage_line stof raw = Some preset"
  shows "fields_trimmed preset"
proof -
  define tokens where "tokens = TokenizeLine (TrimWhitespace raw)"
  have "preset = \<lparr>name = TrimWhitespace (tokens ! 0), loadoutCode = TrimWhitespace (tokens ! 1),
      customization = storage_customization stof tokens\<rparr>"
    using assms by (auto simp: storage_line_def Let_def tokens_def split: if_splits)
  then show ?thesis
    by (simp add: fields_trimmed_def trimmed_TrimWhitespace storage_customization_fields trimmed_defaults)
qed

lemma set_AddOrUpdatePreset: "set (AddOrUpdatePreset ps p) \<subseteq> insert p (set ps)"
  by (auto simp: AddOrUpdatePreset_def Let_def dest: subsetD [OF set_update_subset_insert])

lemma foldl_step_invariant:
  assumes "\<And>ps line. set (step ps line) \<subseteq> set ps \<union> {p. \<exists>l. produces l p \<and> l = line}"
  shows "set (foldl step ps lines) \<subseteq> set ps \<union> {p. \<exists>l\<in>set lines. produces l p}"
proof (induction lines arbitrary: ps)
  case Nil
  then show ?case by simp
next
  case (Cons line lines)
  have "set (foldl step (step ps line) lines)
      \<subseteq> set (step ps line) \<union> {p. \<exists>l\<in>set lines. produces l p}"
    by (rule Cons.IH)
  also have "\<dots> \<subseteq> set ps \<union> {p. \<exists>l\<in>set (line # lines). produces l p}"
    using assms [of ps line] by auto
  finally show ?case by simp
qed

lemma set_RefreshFromVanillaPresets_loop:
  "set (foldl RefreshFromVanillaPresets_step ps lines)
     \<subseteq> set ps \<union> {p. \<exists>l\<in>set lines. vanilla_line l = Some p}"
  by (rule foldl_step_invariant)
     (use set_AddOrUpdatePreset in \<open>auto simp: RefreshFromVanillaPresets_step_def split: option.splits\<close>)

lemma set_LoadFromStorage_loop:
  "set (foldl (LoadFromStorage_step stof) ps lines)
     \<subseteq> set ps \<union> {p. \<exists>l\<in>set lines. storage_line stof l = Some p}"
  by (rule foldl_step_invariant)
     (use set_AddOrUpdatePreset in \<open>auto simp: LoadFromStorage_step_def split: option.splits\<close>)

lemma presets_cvar_log [simp]: "presets (cvar_log msg m) = presets m"
  by (simp add: cvar_log_def)

lemma presets_SaveToStorage: "SaveToStorage m = Inr m' \<Longrightarrow> presets m' = presets m"
  by (auto simp: SaveToStorage_def EnsureStorageDirectory_def split: if_splits)

lemma presets_RefreshFromVanillaPresets:
  "presets (RefreshFromVanillaPresets m) =
     (case vanilla_file m of
        Content text \<Rightarrow>
          if vanillaPresetsPath m = [] then []
          else foldl RefreshFromVanillaPresets_step [] (getlines (CHR 0x0A) text)
      | _ \<Rightarrow> [])"
  by (simp add: RefreshFromVanillaPresets_def Let_def split: source_file.splits)

lemma RefreshFromVanillaPresets_trimmed:
  "\<forall>p\<in>set (presets (RefreshFromVanillaPresets m)). fields_trimmed p"
  using set_RefreshFromVanillaPresets_loop [of "[]"]
  by (auto simp: presets_RefreshFromVanillaPresets split: source_file.splits
      dest!: subsetD intro: vanilla_line_trimmed)


text \<open>
  Claim C10: every record that \<^verbatim>\<open>LoadFromStorage\<close> leaves in the collection (whether it read
  the storage file or fell back to the vanilla import) and every record that
  \<^verbatim>\<open>RefreshFromVanillaPresets\<close> leaves there has a name, a loadout code and three labels
  with no space, tab, carriage return or newline at either end, whatever the parser of
  numbers does.
\<close>

theorem loaded_fields_trimmed:
  "(\<forall>m'. LoadFromStorage stof m = Inr m' \<longrightarrow> (\<forall>p\<in>set (presets m'). fields_trimmed p)) \<and>
   (\<forall>p\<in>set (presets (RefreshFromVanillaPresets m)). fields_trimmed p)"
proof (intro conjI allI impI)
  show "\<forall>p\<in>set (presets (RefreshFromVanillaPresets m)). fields_trimmed p"
    by (rule RefreshFromVanillaPresets_trimmed)
next
  fix m'
  assume load: "LoadFromStorage stof m = Inr m'"
  show "\<forall>p\<in>set (presets m'). fields_trimmed p"
  proof (cases "storage_file m")
    case (Content body)
    then have "presets m' = foldl (LoadFromStorage_step stof) [] (getlines (CHR 0x0A) body)"
      using load by (auto simp: LoadFromStorage_def Let_def)
    then show ?thesis
      using set_LoadFromStorage_loop [of stof "[]" "getlines (CHR 0x0A) body"]
      by (auto dest!: subsetD intro: storage_line_trimmed)
  next
    case Missing
    then have "presets m' = presets (RefreshFromVanillaPresets
        (cvar_log ''ExpandedPresets: No stored presets were found, importing from presets.data instead.''
           (m\<lparr>presets := []\<rparr>)))"
      using load by (simp add: LoadFromStorage_def Let_def presets_SaveToStorage)
    then show ?thesis by (metis RefreshFromVanillaPresets_trimmed)
  next
    case Unreadable
    then have "presets m' = presets (RefreshFromVanillaPresets
        (cvar_log ''ExpandedPresets: No stored presets were found, importing from presets.data instead.''
           (m\<lparr>presets := []\<rparr>)))"
      using load by (simp add: LoadFromStorage_def Let_def presets_SaveToStorage)
    then show ?thesis by (metis RefreshFromVanillaPresets_trimmed)
  qed
qed

theorem loaded_fields_trimmed_witness:
  "(\<exists>m'. LoadFromStorage stof_decimal example_manager = Inr m' \<and>
         map name (presets m') = [''Octane Classic''] \<and>
         map loadoutCode (presets m') = [''CODE-1''] \<and>
         map (\<lambda>p. decalLabel (customization p)) (presets m') = [''Stripes''] \<and>
         list_all fields_trimmed (presets m')) \<and>
   list_all fields_trimmed (presets (RefreshFromVanillaPresets example_manager))"
proof -
  have "case LoadFromStorage stof_decimal example_manager of
          Inl e \<Rightarrow> False
        | Inr m' \<Rightarrow> map name (presets m') = [''Octane Classic''] \<and>
            map loadoutCode (presets m') = [''CODE-1''] \<and>
            map (\<lambda>p. decalLabel (customization p)) (presets m') = [''Stripes'']"
    by code_simp
  then obtain m' where m': "LoadFromStorage stof_decimal example_manager = Inr m'"
    and f: "map name (presets m') = [''Octane Classic''] \<and>
      map loadoutCode (presets m') = [''CODE-1''] \<and>
      map (\<lambda>p. decalLabel (customization p)) (presets m') = [''Stripes'']"
    by (auto split: sum.splits)
  have t: "list_all fields_trimmed (presets m')"
    using loaded_fields_trimmed [of stof_decimal example_manager] m'
    unfolding list_all_iff by blast
  have v: "list_all fields_trimmed (presets (RefreshFromVanillaPresets example_manager))"
    using loaded_fields_trimmed [of stof_decimal example_manager]
    unfolding list_all_iff by blast
  have "\<exists>m'. LoadFromStorage stof_decimal example_manager = Inr m' \<and>
         map name (presets m') = [''Octane Classic''] \<and>
         map loadoutCode (presets m') = [''CODE-1''] \<and>
         map (\<lambda>p. decalLabel (customization p)) (presets m') = [''Stripes''] \<and>
         list_all fields_trimmed (presets m')"
    by (rule exI [of _ m']) (simp add: m' f t)
  then show ?thesis using v by (rule conjI)
qed

lemma RefreshFromVanillaPresets_loop:
  "foldl RefreshFromVanillaPresets_step acc lines =
     foldl AddOrUpdatePreset acc (List.map_filter vanilla_line lines)"
  by (induction lines arbitrary: acc)
     (simp_all add: RefreshFromVanillaPresets_step_def List.map_filter_simps split: option.splits)

lemma map_filter_source:
  "p \<in> set (List.map_filter f xs) \<Longrightarrow> \<exists>x\<in>set xs. f x = Some p"
  by (auto simp: List.map_filter_def)

text \<open>
  Claim C9: whatever the collection held before, \<^verbatim>\<open>RefreshFromVanillaPresets\<close> ends with the
  collection that upserting the records of the valid lines of the vanilla file, in order,
  into the empty collection gives: every name of a valid line stands once, in the order in
  which the names first appear in the file, each with the record of the last valid line of
  that name; every record held comes from a line of the file, and the result does not
  depend on the prior records. When the file is missing (or the path is empty) the
  collection is empty and one diagnostic is logged, and when the file cannot be opened the
  collection is empty too.
\<close>

theorem RefreshFromVanillaPresets_replaces:
  "(vanilla_file m = Content text \<and> vanillaPresetsPath m \<noteq> [] \<longrightarrow>
      presets (RefreshFromVanillaPresets m)
        = latest_by_name (List.map_filter vanilla_line (getlines (CHR 0x0A) text)) \<and>
      distinct (map name (presets (RefreshFromVanillaPresets m))) \<and>
      map name (presets (RefreshFromVanillaPresets m))
        = rev (remdups (rev (map name (List.map_filter vanilla_line (getlines (CHR 0x0A) text))))) \<and>
      (\<forall>p\<in>set (presets (RefreshFromVanillaPresets m)).
         latest_named (name p) (List.map_filter vanilla_line (getlines (CHR 0x0A) text)) = Some p) \<and>
      presets (RefreshFromVanillaPresets m)
        = foldl RefreshFromVanillaPresets_step [] (getlines (CHR 0x0A) text) \<and>
      (\<forall>p\<in>set (presets (RefreshFromVanillaPresets m)).
         \<exists>line\<in>set (getlines (CHR 0x0A) text). vanilla_line line = Some p)) \<and>
   (vanilla_file m = Missing \<or> vanillaPresetsPath m = [] \<longrightarrow>
      presets (RefreshFromVanillaPresets m) = [] \<and>
      log_lines (RefreshFromVanillaPresets m) = log_lines m @
        [''ExpandedPresets: Could not find vanilla presets.data file to import presets.'']) \<and>
   (vanilla_file m = Unreadable \<longrightarrow> presets (RefreshFromVanillaPresets m) = []) \<and>
   presets (RefreshFromVanillaPresets (m\<lparr>presets := ps\<rparr>)) = presets (RefreshFromVanillaPresets m)"
proof -
  define valid where "valid = List.map_filter vanilla_line (getlines (CHR 0x0A) text)"
  have 1: "vanilla_file m = Content text \<and> vanillaPresetsPath m \<noteq> [] \<longrightarrow>
      presets (RefreshFromVanillaPresets m) = latest_by_name valid \<and>
      distinct (map name (presets (RefreshFromVanillaPresets m))) \<and>
      map name (presets (RefreshFromVanillaPresets m)) = rev (remdups (rev (map name valid))) \<and>
      (\<forall>p\<in>set (presets (RefreshFromVanillaPresets m)). latest_named (name p) valid = Some p) \<and>
      presets (RefreshFromVanillaPresets m)
        = foldl RefreshFromVanillaPresets_step [] (getlines (CHR 0x0A) text) \<and>
      (\<forall>p\<in>set (presets (RefreshFromVanillaPresets m)).
         \<exists>line\<in>set (getlines (CHR 0x0A) text). vanilla_line line = Some p)"
  proof
    assume "vanilla_file m = Content text \<and> vanillaPresetsPath m \<noteq> []"
    then have loop: "presets (RefreshFromVanillaPresets m)
        = foldl RefreshFromVanillaPresets_step [] (getlines (CHR 0x0A) text)"
      by (simp add: presets_RefreshFromVanillaPresets)
    then have eq: "presets (RefreshFromVanillaPresets m) = latest_by_name valid"
      by (simp add: RefreshFromVanillaPresets_loop foldl_AddOrUpdatePreset valid_def)
    have d: "distinct (map name (presets (RefreshFromVanillaPresets m)))"
      unfolding eq by (rule distinct_latest_by_name)
    have n: "map name (presets (RefreshFromVanillaPresets m)) = rev (remdups (rev (map name valid)))"
      unfolding eq by (rule names_order_latest_by_name)
    have l: "\<forall>p\<in>set (presets (RefreshFromVanillaPresets m)). latest_named (name p) valid = Some p"
      unfolding eq by (simp add: latest_by_name_latest)
    have "\<forall>p\<in>set (presets (RefreshFromVanillaPresets m)). p \<in> set valid"
      using l latest_named_name by blast
    then have s: "\<forall>p\<in>set (presets (RefreshFromVanillaPresets m)).
        \<exists>line\<in>set (getlines (CHR 0x0A) text). vanilla_line line = Some p"
      unfolding valid_def using map_filter_source by fast
    show "presets (RefreshFromVanillaPresets m) = latest_by_name valid \<and>
      distinct (map name (presets (RefreshFromVanillaPresets m))) \<and>
      map name (presets (RefreshFromVanillaPresets m)) = rev (remdups (rev (map name valid))) \<and>
      (\<forall>p\<in>set (presets (RefreshFromVanillaPresets m)). latest_named (name p) valid = Some p) \<and>
      presets (RefreshFromVanillaPresets m)
        = foldl RefreshFromVanillaPresets_step [] (getlines (CHR 0x0A) text) \<and>
      (\<forall>p\<in>set (presets (RefreshFromVanillaPresets m)).
         \<exists>line\<in>set (getlines (CHR 0x0A) text). vanilla_line line = Some p)"
      by (rule conjI [OF eq conjI [OF d conjI [OF n conjI [OF l conjI [OF loop s]]]]])
  qed
  have 2: "vanilla_file m = Missing \<or> vanillaPresetsPath m = [] \<longrightarrow>
      presets (RefreshFromVanillaPresets m) = [] \<and>
      log_lines (RefreshFromVanillaPresets m) = log_lines m @
        [''ExpandedPresets: Could not find vanilla presets.data file to import presets.'']"
    by (auto simp: RefreshFromVanillaPresets_def Let_def cvar_log_def)
  have 3: "vanilla_file m = Unreadable \<longrightarrow> presets (RefreshFromVanillaPresets m) = []"
    by (simp add: presets_RefreshFromVanillaPresets)
  have 4: "presets (RefreshFromVanillaPresets (m\<lparr>presets := ps\<rparr>))
      = presets (RefreshFromVanillaPresets m)"
    by (simp add: presets_RefreshFromVanillaPresets split: source_file.splits)
  show ?thesis
    unfolding valid_def [symmetric] by (rule conjI [OF 1 conjI [OF 2 conjI [OF 3 4]]])
qed

theorem RefreshFromVanillaPresets_replaces_witness:
  "vanillaPresetsPath vanilla_store \<noteq> [] \<and>
   map name (presets vanilla_store) = [''My Custom'', ''Octane''] \<and>
   presets (RefreshFromVanillaPresets vanilla_store) =
     [\<lparr>name = ''Team GT'', loadoutCode = ''RLCS-CCCC'', customization = default_customization\<rparr>,
      \<lparr>name = ''Octane'', loadoutCode = ''RLCS-BBBB'', customization = default_customization\<rparr>] \<and>
   distinct (map name (presets (RefreshFromVanillaPresets vanilla_store))) \<and>
   vanilla_file (vanilla_store\<lparr>vanilla_file := Missing\<rparr>) = Missing \<and>
   presets (RefreshFromVanillaPresets (vanilla_store\<lparr>vanilla_file := Missing\<rparr>)) = [] \<and>
   log_lines (RefreshFromVanillaPresets (vanilla_store\<lparr>vanilla_file := Missing\<rparr>)) =
     [''ExpandedPresets: Could not find vanilla presets.data file to import presets.'']"
proof -
  let ?text = "''# vanilla presets'' @ [CHR 0x0A] @ ''Team GT  RLCS-AAAA'' @ [CHR 0x0A] @
      ''Octane'' @ [CHR 0x09] @ ''RLCS-BBBB'' @ [CHR 0x0A] @ ''NoDelimiter'' @ [CHR 0x0A] @
      ''Team GT  RLCS-CCCC'' @ [CHR 0x0A]"
  have f: "vanilla_file vanilla_store = Content ?text \<and> vanillaPresetsPath vanilla_store \<noteq> []"
    by (simp add: vanilla_store_def example_manager_def)
  have l: "latest_by_name (List.map_filter vanilla_line (getlines (CHR 0x0A) ?text)) =
     [\<lparr>name = ''Team GT'', loadoutCode = ''RLCS-CCCC'', customization = default_customization\<rparr>,
      \<lparr>name = ''Octane'', loadoutCode = ''RLCS-BBBB'', customization = default_customization\<rparr>]"
    by code_simp
  have 1: "presets (RefreshFromVanillaPresets vanilla_store) =
     [\<lparr>name = ''Team GT'', loadoutCode = ''RLCS-CCCC'', customization = default_customization\<rparr>,
      \<lparr>name = ''Octane'', loadoutCode = ''RLCS-BBBB'', customization = default_customization\<rparr>]"
    and d: "distinct (map name (presets (RefreshFromVanillaPresets vanilla_store)))"
    using RefreshFromVanillaPresets_replaces [of vanilla_store ?text] f l by simp_all
  have 2: "presets (RefreshFromVanillaPresets (vanilla_store\<lparr>vanilla_file := Missing\<rparr>)) = [] \<and>
     log_lines (RefreshFromVanillaPresets (vanilla_store\<lparr>vanilla_file := Missing\<rparr>)) =
     [''ExpandedPresets: Could not find vanilla presets.data file to import presets.'']"
    using RefreshFromVanillaPresets_replaces [of "vanilla_store\<lparr>vanilla_file := Missing\<rparr>"]
    by (simp add: vanilla_store_def example_manager_def)
  have o: "map name (presets vanilla_store) = [''My Custom'', ''Octane'']"
    by (simp add: vanilla_store_def)
  show ?thesis using f 1 d 2 o by simp
qed

section \<open>Properties of the colour codec and of saving\<close>

lemma ParseColorToken_loop_r:
  "r (ParseColorToken_loop stof comps i c) =
     (if i = 0 \<and> comps \<noteq> [] then parse_component stof (comps ! 0) else r c)"
  by (induction comps arbitrary: i c) (auto simp: set_channel_def)

lemma ParseColorToken_loop_g:
  "g (ParseColorToken_loop stof comps i c) =
     (if i \<le> 1 \<and> 1 < i + length comps then parse_component stof (comps ! (1 - i)) else g c)"
  by (induction comps arbitrary: i c) (auto simp: set_channel_def nth_Cons')

lemma ParseColorToken_loop_b:
  "b (ParseColorToken_loop stof comps i c) =
     (if i \<le> 2 \<and> 2 < i + length comps then parse_component stof (comps ! (2 - i)) else b c)"
  by (induction comps arbitrary: i c) (auto simp: set_channel_def nth_Cons')

lemma ParseColorToken_channels:
  "ParseColorToken stof token =
     (let components = getlines CHR '','' token;
          channel = (\<lambda>k. if k < length components
                          then parse_component stof (components ! k) else 0)
      in \<lparr>r = channel 0, g = channel 1, b = channel 2\<rparr>)"
  by (rule PresetPaintColor.equality)
     (simp_all add: ParseColorToken_def Let_def ParseColorToken_loop_r ParseColorToken_loop_g
        ParseColorToken_loop_b default_color_def)

lemma parse_component_cases:
  "(stof c = None \<longrightarrow> parse_component stof c = 0) \<and>
   (\<forall>v. stof c = Some v \<longrightarrow>
      parse_component stof c = (if v < 0 then 0 else if v > 1 then v / 255 else v))"
  by (auto simp: parse_component_def Let_def max_def)

lemma parse_component_nonneg: "0 \<le> parse_component stof c"
  by (auto simp: parse_component_def Let_def max_def split: option.splits)

lemma parse_component_le_1:
  "(\<forall>v. stof c = Some v \<longrightarrow> v \<le> 255) \<Longrightarrow> parse_component stof c \<le> 1"
  by (auto simp: parse_component_def Let_def max_def split: option.splits)

text \<open>
  Claim C4: for every token and whatever the parser of numbers returns, the token is split
  on the comma and the first three components give the channels in order: a component
  that does not parse counts as 0 (the token as a whole always yields a colour), a
  negative value becomes 0, a value above 1 is divided by 255, any other value is kept,
  and a channel whose component is missing is 0.
\<close>

theorem ParseColorToken_decode:
  "ParseColorToken stof token =
     (let components = getlines CHR '','' token;
          channel = (\<lambda>k. if k < length components
                          then parse_component stof (components ! k) else 0)
      in \<lparr>r = channel 0, g = channel 1, b = channel 2\<rparr>) \<and>
   (stof component = None \<longrightarrow> parse_component stof component = 0) \<and>
   (\<forall>v. stof component = Some v \<longrightarrow>
      parse_component stof component = (if v < 0 then 0 else if v > 1 then v / 255 else v))"
  using ParseColorToken_channels [of stof token] parse_component_cases [of stof component]
  by (rule conjI)

theorem ParseColorToken_decode_witness:
  "ParseColorToken stof_decimal ''128,0,255'' = \<lparr>r = 128 / 255, g = 0, b = 1\<rparr> \<and>
   ParseColorToken stof_decimal ''0.5,0.5,0.5'' = \<lparr>r = 1 / 2, g = 1 / 2, b = 1 / 2\<rparr> \<and>
   ParseColorToken stof_decimal ''-1,2,abc'' = \<lparr>r = 0, g = 2 / 255, b = 0\<rparr> \<and>
   ParseColorToken stof_decimal ''0.25'' = \<lparr>r = 1 / 4, g = 0, b = 0\<rparr>"
proof -
  have split:
    "getlines CHR '','' ''128,0,255'' = [''128'', ''0'', ''255'']"
    "getlines CHR '','' ''0.5,0.5,0.5'' = [''0.5'', ''0.5'', ''0.5'']"
    "getlines CHR '','' ''-1,2,abc'' = [''-1'', ''2'', ''abc'']"
    "getlines CHR '','' ''0.25'' = [''0.25'']"
    by code_simp+
  have stof:
    "stof_decimal ''128'' = Some 128" "stof_decimal ''0'' = Some 0"
    "stof_decimal ''255'' = Some 255" "stof_decimal ''0.5'' = Some (1 / 2)"
    "stof_decimal ''-1'' = Some (- 1)" "stof_decimal ''2'' = Some 2"
    "stof_decimal ''abc'' = None" "stof_decimal ''0.25'' = Some (1 / 4)"
    by code_simp+
  have some: "parse_component stof_decimal c = (if v < 0 then 0 else if v > 1 then v / 255 else v)"
    if "stof_decimal c = Some v" for c v
    using that ParseColorToken_decode [of stof_decimal "[]" c] by blast
  have none: "parse_component stof_decimal c = 0" if "stof_decimal c = None" for c
    using that ParseColorToken_decode [of stof_decimal "[]" c] by blast
  have comp:
    "parse_component stof_decimal ''128'' = 128 / 255"
    "parse_component stof_decimal ''0'' = 0"
    "parse_component stof_decimal ''255'' = 1"
    "parse_component stof_decimal ''0.5'' = 1 / 2"
    "parse_component stof_decimal ''-1'' = 0"
    "parse_component stof_decimal ''2'' = 2 / 255"
    "parse_component stof_decimal ''abc'' = 0"
    "parse_component stof_decimal ''0.25'' = 1 / 4"
    using some [OF stof(1)] some [OF stof(2)] some [OF stof(3)] some [OF stof(4)]
      some [OF stof(5)] some [OF stof(6)] none [OF stof(7)] some [OF stof(8)]
    by simp_all
  show ?thesis
    using ParseColorToken_decode [of stof_decimal "''128,0,255''", THEN conjunct1]
      ParseColorToken_decode [of stof_decimal "''0.5,0.5,0.5''", THEN conjunct1]
      ParseColorToken_decode [of stof_decimal "''-1,2,abc''", THEN conjunct1]
      ParseColorToken_decode [of stof_decimal "''0.25''", THEN conjunct1]
    by (simp add: split comp Let_def)
qed

text \<open>
  Claim C3 as the spec states it fails: the token \<^verbatim>\<open>300,0,0\<close> parses to a red channel of
  \<open>300 / 255\<close>, which is above 1.
\<close>

theorem ParseColorToken_range_counterexample:
  "ParseColorToken stof_decimal ''300,0,0'' = \<lparr>r = 20 / 17, g = 0, b = 0\<rparr> \<and>
   \<not> in_unit_range (ParseColorToken stof_decimal ''300,0,0'')"
proof -
  have "ParseColorToken stof_decimal ''300,0,0'' = \<lparr>r = 20 / 17, g = 0, b = 0\<rparr>"
    by code_simp
  then show ?thesis by (simp add: in_unit_range_def)
qed

text \<open>
  Claim C3, as the code has it: the default colours of a customization lie in \<open>[0, 1]\<close>;
  every channel of a parsed colour is at least 0, whatever the token and the parser of
  numbers; and the parsed colour lies in \<open>[0, 1]\<close> whenever each of the first three
  components of the token that parses has a value of at most 255.
\<close>

theorem ParseColorToken_range:
  "in_unit_range default_color \<and>
   in_unit_range (primaryColor default_customization) \<and>
   in_unit_range (accentColor default_customization) \<and>
   0 \<le> r (ParseColorToken stof token) \<and>
   0 \<le> g (ParseColorToken stof token) \<and>
   0 \<le> b (ParseColorToken stof token) \<and>
   ((\<forall>c\<in>set (take 3 (getlines CHR '','' token)). \<forall>v. stof c = Some v \<longrightarrow> v \<le> 255) \<longrightarrow>
      in_unit_range (ParseColorToken stof token))"
proof -
  define comps where "comps = getlines CHR '','' token"
  have defaults: "in_unit_range default_color"
    "in_unit_range (primaryColor default_customization)"
    "in_unit_range (accentColor default_customization)"
    by (simp_all add: in_unit_range_def default_color_def default_customization_def)
  have lower: "0 \<le> r (ParseColorToken stof token)" "0 \<le> g (ParseColorToken stof token)"
    "0 \<le> b (ParseColorToken stof token)"
    by (simp_all add: ParseColorToken_channels Let_def parse_component_nonneg)
  have upper: "in_unit_range (ParseColorToken stof token)"
    if h: "\<forall>c\<in>set (take 3 comps). \<forall>v. stof c = Some v \<longrightarrow> v \<le> 255"
  proof -
    have "parse_component stof (comps ! k) \<le> 1" if "k < 3" "k < length comps" for k
    proof -
      have "comps ! k \<in> set (take 3 comps)"
        using that by (metis in_set_conv_nth length_take min_less_iff_conj nth_take)
      then show ?thesis using h by (intro parse_component_le_1) blast
    qed
    then show ?thesis
      by (simp add: in_unit_range_def ParseColorToken_channels Let_def parse_component_nonneg
          comps_def [symmetric])
  qed
  show ?thesis using defaults lower upper unfolding comps_def by blast
qed

theorem ParseColorToken_range_witness:
  "in_unit_range (ParseColorToken stof_decimal ''128,0,255'') \<and>
   0 \<le> r (ParseColorToken stof_decimal ''300,0,0'')"
proof -
  have split: "getlines CHR '','' ''128,0,255'' = [''128'', ''0'', ''255'']"
    by code_simp
  have stof: "stof_decimal ''128'' = Some 128" "stof_decimal ''0'' = Some 0"
    "stof_decimal ''255'' = Some 255"
    by code_simp+
  have h: "\<forall>c\<in>set (take 3 (getlines CHR '','' ''128,0,255'')). \<forall>v. stof_decimal c = Some v \<longrightarrow> v \<le> 255"
    by (simp add: split stof)
  show ?thesis
    using h ParseColorToken_range [of stof_decimal "''128,0,255''"]
      ParseColorToken_range [of stof_decimal "''300,0,0''"]
    by blast
qed

text \<open>
  Claim C5 fails on the code where the storage directory is missing and cannot be created:
  \<^verbatim>\<open>EnsureStorageDirectory\<close> throws and \<^verbatim>\<open>SaveToStorage\<close> lets the exception out instead
  of logging and returning.
\<close>

theorem SaveToStorage_throws:
  "SaveToStorage (example_manager\<lparr>storage_dir_exists := False, storage_dir_creatable := False\<rparr>)
     = Inl filesystem_error"
  by (simp add: SaveToStorage_def EnsureStorageDirectory_def example_manager_def)

text \<open>
  The rest of C5 holds: when the directory exists or can be created, the call returns,
  the collection is unchanged, and a file that cannot be opened for writing is left as it
  was and reported by one line of the log.
\<close>

lemma SaveToStorage_returns:
  assumes "storage_dir_empty m \<or> storage_dir_exists m \<or> storage_dir_creatable m"
  shows "\<exists>m'. SaveToStorage m = Inr m' \<and> presets m' = presets m \<and>
           (if storage_file_writable m
            then storage_file m' = Content (concat (map save_line (presets m))) \<and>
                 log_lines m' = log_lines m
            else storage_file m' = storage_file m \<and>
                 log_lines m' = log_lines m @
                   [''ExpandedPresets: Failed to open storage file for writing: '' @ storageFilePath m])"
  using assms by (auto simp: SaveToStorage_def EnsureStorageDirectory_def cvar_log_def)

section \<open>Properties of the number format\<close>

lemma of_char_digit_char: "n < 10 \<Longrightarrow> (of_char (digit_char n) :: nat) = 48 + n"
  by (simp add: digit_char_def)

lemma is_digit_digit_char: "n < 10 \<Longrightarrow> is_digit (digit_char n)"
  by (simp add: is_digit_def of_char_digit_char)

lemma digit_val_digit_char: "n < 10 \<Longrightarrow> digit_val (digit_char n) = n"
  by (simp add: digit_val_def of_char_digit_char)

lemma is_digit_dec_digits: "\<forall>c\<in>set (dec_digits n). is_digit c"
proof (induction n rule: dec_digits.induct)
  case (1 n)
  show ?case
  proof (cases "n < 10")
    case True
    then show ?thesis by (subst dec_digits.simps) (simp add: is_digit_digit_char)
  next
    case False
    then show ?thesis using 1 by (subst dec_digits.simps) (simp add: is_digit_digit_char)
  qed
qed

lemma dec_digits_ne: "dec_digits n \<noteq> []"
  by (subst dec_digits.simps) simp

lemma digits_value_snoc: "digits_value (ds @ [c]) = 10 * digits_value ds + digit_val c"
  by (simp add: digits_value_def)

lemma digits_value_dec_digits: "digits_value (dec_digits n) = n"
proof (induction n rule: dec_digits.induct)
  case (1 n)
  show ?case
  proof (cases "n < 10")
    case True
    then show ?thesis
      by (subst dec_digits.simps) (simp add: digits_value_def digit_val_digit_char)
  next
    case False
    then have "digits_value (dec_digits (n div 10)) = n div 10" using 1 by simp
    then show ?thesis using False
      by (subst dec_digits.simps) (simp add: digits_value_snoc digit_val_digit_char)
  qed
qed

lemma digits_value_three:
  assumes "x < 10" "y < 10" "z < 10"
  shows "digits_value [digit_char x, digit_char y, digit_char z] = 100 * x + 10 * y + z"
  using assms by (simp add: digits_value_def digit_val_digit_char)

lemma is_digit_not_space: "is_digit c \<Longrightarrow> \<not> is_space c"
  by (auto simp: is_digit_def is_space_def)

lemma is_digit_chars:
  "is_digit c \<Longrightarrow> c \<noteq> CHR ''-'' \<and> c \<noteq> CHR ''+'' \<and> c \<noteq> CHR ''.'' \<and> c \<noteq> CHR '','' \<and>
     c \<noteq> CHR ''|'' \<and> c \<noteq> CHR 0x0A \<and> \<not> is_ws c"
  by (auto simp: is_digit_def is_ws_def)

lemma stof_decimal_digits:
  assumes "\<forall>c\<in>set ds. is_digit c" "ds \<noteq> []" "\<forall>c\<in>set fs. is_digit c"
  shows "stof_decimal (ds @ CHR ''.'' # fs) =
     Some (real (digits_value ds) + real (digits_value fs) / 10 ^ length fs)"
proof -
  have hd: "is_digit (hd ds)" using assms by (cases ds) auto
  have 1: "dropWhile is_space (ds @ CHR ''.'' # fs) = ds @ CHR ''.'' # fs"
    using assms(2) hd is_digit_not_space by (cases ds) auto
  have 2: "hd (ds @ CHR ''.'' # fs) \<noteq> CHR ''-''" "hd (ds @ CHR ''.'' # fs) \<noteq> CHR ''+''"
    using assms(2) hd is_digit_chars by (cases ds; auto)+
  have nd: "\<not> is_digit CHR ''.''" by (simp add: is_digit_def)
  have 3: "takeWhile is_digit (ds @ CHR ''.'' # fs) = ds"
    using assms(1) nd by (simp add: takeWhile_append2)
  have 4: "dropWhile is_digit (ds @ CHR ''.'' # fs) = CHR ''.'' # fs"
    using assms(1) nd by (simp add: dropWhile_append2)
  have 5: "takeWhile is_digit fs = fs"
    using assms(3) by (simp add: takeWhile_eq_all_conv)
  show ?thesis
    using 2 assms(2) by (simp add: stof_decimal_def Let_def 1 3 4 5)
qed

lemma round_half_even_bounds:
  "\<bar>real_of_int (round_half_even x) - x\<bar> \<le> 1 / 2"
  unfolding round_half_even_def Let_def by (auto simp: abs_le_iff; linarith)

lemma round_half_even_nonneg: "0 \<le> x \<Longrightarrow> 0 \<le> round_half_even x"
  unfolding round_half_even_def Let_def by (auto simp: zero_le_floor)

lemma round_half_even_le: "x \<le> real_of_int n \<Longrightarrow> round_half_even x \<le> n"
  unfolding round_half_even_def Let_def
  by (auto simp: floor_le_iff)

section \<open>Parsing what the serializer writes\<close>

lemma three_digits: "100 * (k div 100 mod 10) + 10 * (k div 10 mod 10) + k mod 10 = k mod (1000::nat)"
proof -
  define x where "x = k div 10"
  define y where "y = x div 10"
  define z where "z = y div 10"
  have d100: "k div 100 = y"
    unfolding y_def x_def by (simp add: div_mult2_eq [symmetric])
  have d1000: "k div 1000 = z"
    unfolding z_def y_def x_def by (simp add: div_mult2_eq [symmetric])
  have k: "k = 10 * x + k mod 10" unfolding x_def by simp
  have x: "x = 10 * y + x mod 10" unfolding y_def by simp
  have y: "y = 10 * z + y mod 10" unfolding z_def by simp
  have lt: "k mod 10 < 10" "x mod 10 < 10" "y mod 10 < 10" by simp_all
  have eq: "k = z * 1000 + (100 * (y mod 10) + 10 * (x mod 10) + k mod 10)"
    using k x y by linarith
  have "k mod 1000 = (100 * (y mod 10) + 10 * (x mod 10) + k mod 10) mod 1000"
    by (subst eq) (simp only: mod_mult_self3)
  also have "\<dots> = 100 * (y mod 10) + 10 * (x mod 10) + k mod 10"
    using lt by (intro mod_less) linarith
  finally show ?thesis by (simp add: d100 x_def [symmetric])
qed

lemma format_fixed3_nonneg:
  assumes "0 \<le> x"
  shows "format_fixed3 x = dec_digits (nat (round_half_even (x * 1000)) div 1000) @ CHR ''.'' #
      [digit_char (nat (round_half_even (x * 1000)) div 100 mod 10),
       digit_char (nat (round_half_even (x * 1000)) div 10 mod 10),
       digit_char (nat (round_half_even (x * 1000)) mod 10)]"
  using assms by (simp add: format_fixed3_def Let_def abs_if)

lemma stof_decimal_format_fixed3:
  assumes "0 \<le> x"
  shows "stof_decimal (format_fixed3 x) = Some (round3 x)"
proof -
  define k where "k = nat (round_half_even (x * 1000))"
  have k: "real k = real_of_int (round_half_even (x * 1000))"
    using assms round_half_even_nonneg [of "x * 1000"] by (simp add: k_def)
  have fs: "\<forall>c\<in>set [digit_char (k div 100 mod 10), digit_char (k div 10 mod 10), digit_char (k mod 10)]. is_digit c"
    by (simp add: is_digit_digit_char)
  have v: "digits_value [digit_char (k div 100 mod 10), digit_char (k div 10 mod 10), digit_char (k mod 10)]
      = k mod 1000"
    by (simp add: digits_value_three three_digits)
  have "real (k div 1000) * 1000 + real (k mod 1000) = real (k div 1000 * 1000 + k mod 1000)"
    by (simp only: of_nat_add of_nat_mult of_nat_numeral)
  also have "\<dots> = real k" by simp
  finally have sum: "real (k div 1000) + real (k mod 1000) / 1000 = real k / 1000"
    by (simp add: field_simps)
  have "stof_decimal (format_fixed3 x) =
      Some (real (digits_value (dec_digits (k div 1000))) + real (k mod 1000) / 10 ^ 3)"
    unfolding format_fixed3_nonneg [OF assms] k_def [symmetric]
    using stof_decimal_digits [OF is_digit_dec_digits dec_digits_ne fs, of "k div 1000"]
    by (simp add: v)
  then show ?thesis
    by (simp add: digits_value_dec_digits sum k round3_def)
qed

lemma round3_range:
  assumes "0 \<le> x" "x \<le> 1"
  shows "0 \<le> round3 x" "round3 x \<le> 1"
proof -
  have "0 \<le> round_half_even (x * 1000)"
    using assms by (simp add: round_half_even_nonneg)
  then show "0 \<le> round3 x" by (simp add: round3_def)
  have "round_half_even (x * 1000) \<le> 1000"
    using assms round_half_even_le [of "x * 1000" 1000] by simp
  then show "round3 x \<le> 1" by (simp add: round3_def)
qed

lemma round3_close: "\<bar>round3 x - x\<bar> \<le> 1 / 2000"
proof -
  have "\<bar>real_of_int (round_half_even (x * 1000)) - x * 1000\<bar> \<le> 1 / 2"
    by (rule round_half_even_bounds)
  then show ?thesis by (simp add: round3_def abs_le_iff field_simps)
qed

lemma parse_component_format_fixed3:
  assumes "0 \<le> x" "x \<le> 1"
  shows "parse_component stof_decimal (format_fixed3 x) = round3 x"
  using round3_range [OF assms]
  by (simp add: parse_component_def stof_decimal_format_fixed3 [OF assms(1)] Let_def max_def)

lemma format_fixed3_chars:
  "\<forall>c\<in>set (format_fixed3 x). is_digit c \<or> c = CHR ''.'' \<or> c = CHR ''-''"
  using is_digit_dec_digits
  by (auto simp: format_fixed3_def Let_def is_digit_digit_char)

lemma format_fixed3_ne: "format_fixed3 x \<noteq> []"
  by (simp add: format_fixed3_def Let_def)

lemma format_fixed3_free:
  "CHR '','' \<notin> set (format_fixed3 x)" "CHR ''|'' \<notin> set (format_fixed3 x)"
  "CHR 0x0A \<notin> set (format_fixed3 x)"
  using format_fixed3_chars [of x] is_digit_chars by (auto 4 3)

lemma getlines_field:
  assumes "d \<notin> set x"
  shows "getlines d (x @ d # rest) = x # getlines d rest"
proof (cases x)
  case Nil
  then show ?thesis by simp
next
  case (Cons c cs)
  have 1: "takeWhile (\<lambda>y. y \<noteq> d) (x @ d # rest) = x"
    using assms by (subst takeWhile_append2) auto
  have 2: "dropWhile (\<lambda>y. y \<noteq> d) (x @ d # rest) = d # rest"
    using assms by (subst dropWhile_append2) auto
  have e: "x @ d # rest = c # (cs @ d # rest)" by (simp add: Cons)
  have "getlines d (c # (cs @ d # rest)) =
      takeWhile (\<lambda>y. y \<noteq> d) (c # (cs @ d # rest)) #
      getlines d (drop 1 (dropWhile (\<lambda>y. y \<noteq> d) (c # (cs @ d # rest))))"
    by (rule getlines_Cons)
  then show ?thesis unfolding e [symmetric] 1 2 by simp
qed

lemma getlines_last:
  assumes "d \<notin> set x" "x \<noteq> []"
  shows "getlines d x = [x]"
proof -
  obtain c cs where x: "x = c # cs" using assms(2) by (cases x) auto
  have "takeWhile (\<lambda>y. y \<noteq> d) x = x" "dropWhile (\<lambda>y. y \<noteq> d) x = []"
    using assms(1) by (auto simp: takeWhile_eq_all_conv)
  then show ?thesis unfolding x by (subst getlines_Cons) simp
qed

lemma ParseColorToken_SerializeColorToken:
  assumes "in_unit_range c"
  shows "ParseColorToken stof_decimal (SerializeColorToken c) = quantize_color c"
proof -
  have "getlines CHR '','' (SerializeColorToken c) =
      [format_fixed3 (r c), format_fixed3 (g c), format_fixed3 (b c)]"
    by (simp add: SerializeColorToken_def getlines_field getlines_last format_fixed3_free format_fixed3_ne)
  then show ?thesis
    using assms
    by (simp add: ParseColorToken_channels Let_def quantize_color_def in_unit_range_def
        parse_component_format_fixed3)
qed

section \<open>Saving and loading again\<close>

lemma SerializeColorToken_free:
  "CHR ''|'' \<notin> set (SerializeColorToken c)" "CHR 0x0A \<notin> set (SerializeColorToken c)"
  by (simp_all add: SerializeColorToken_def format_fixed3_free)

lemma flag_char_simps:
  "flag_char f \<noteq> CHR ''|''" "CHR ''|'' \<noteq> flag_char f" "\<not> is_ws (flag_char f)"
  "flag_char f = CHR ''1'' \<longleftrightarrow> f" "[flag_char f] \<noteq> ''true''" "[flag_char f] \<noteq> ''matte''"
  "[flag_char f] \<noteq> ''pearlescent''" "flag_char f \<noteq> CHR 0x0A" "CHR 0x0A \<noteq> flag_char f"
  by (simp_all add: flag_char_def is_ws_def)

lemma save_line_eq:
  "save_line p =
     (name p @ CHR ''|'' # loadoutCode p @ CHR ''|'' #
      SerializeColorToken (primaryColor (customization p)) @ CHR ''|'' #
      SerializeColorToken (accentColor (customization p)) @ CHR ''|'' #
      carLabel (customization p) @ CHR ''|'' #
      decalLabel (customization p) @ CHR ''|'' #
      wheelsLabel (customization p) @ CHR ''|'' #
      flag_char (paintFinishMatte (customization p)) # CHR ''|'' #
      [flag_char (paintFinishPearlescent (customization p))]) @ [CHR 0x0A]"
  by (simp add: save_line_def)

lemma TokenizeLine_saved:
  assumes "storable p"
  shows "TokenizeLine (butlast (save_line p)) = saved_tokens p"
proof -
  have free: "CHR ''|'' \<notin> set (name p)" "CHR ''|'' \<notin> set (loadoutCode p)"
    "CHR ''|'' \<notin> set (carLabel (customization p))"
    "CHR ''|'' \<notin> set (decalLabel (customization p))"
    "CHR ''|'' \<notin> set (wheelsLabel (customization p))"
    using assms by (simp_all add: storable_def storable_text_def)
  have one: "getlines CHR ''|'' (c # CHR ''|'' # rest) = [c] # getlines CHR ''|'' rest"
    if "c \<noteq> CHR ''|''" for c rest
    using that getlines_field [of "CHR ''|''" "[c]" rest] by simp
  have final: "getlines CHR ''|'' [c] = [[c]]" if "c \<noteq> CHR ''|''" for c
    using that getlines_last [of "CHR ''|''" "[c]"] by simp
  show ?thesis
    unfolding TokenizeLine_def save_line_eq butlast_snoc saved_tokens_def
    by (simp add: getlines_field free SerializeColorToken_free one final flag_char_simps)
qed

lemma trimmed_saved:
  assumes "storable p"
  shows "TrimWhitespace (butlast (save_line p)) = butlast (save_line p)"
    and "butlast (save_line p) \<noteq> []" and "hd (butlast (save_line p)) \<noteq> CHR ''#''"
proof -
  have n: "name p \<noteq> []" "\<not> is_ws (hd (name p))" "hd (name p) \<noteq> CHR ''#''"
    using assms by (auto simp: storable_def storable_text_def trimmed_def)
  have hd: "hd (butlast (save_line p)) = hd (name p)"
    unfolding save_line_eq butlast_snoc using n(1) by simp
  have last: "last (butlast (save_line p)) = flag_char (paintFinishPearlescent (customization p))"
    unfolding save_line_eq butlast_snoc by simp
  show ne: "butlast (save_line p) \<noteq> []"
    unfolding save_line_eq butlast_snoc by simp
  show "hd (butlast (save_line p)) \<noteq> CHR ''#''" using hd n by simp
  have "trimmed (butlast (save_line p))"
    using ne n by (simp add: trimmed_def hd last flag_char_simps)
  then show "TrimWhitespace (butlast (save_line p)) = butlast (save_line p)"
    by (rule TrimWhitespace_trimmed)
qed

lemma storage_line_saved:
  assumes "storable p"
  shows "storage_line stof_decimal (butlast (save_line p)) = Some (quantize p)"
proof -
  have t: "TrimWhitespace (name p) = name p" "TrimWhitespace (loadoutCode p) = loadoutCode p"
    "TrimWhitespace (carLabel (customization p)) = carLabel (customization p)"
    "TrimWhitespace (decalLabel (customization p)) = decalLabel (customization p)"
    "TrimWhitespace (wheelsLabel (customization p)) = wheelsLabel (customization p)"
    using assms by (simp_all add: storable_def storable_text_def TrimWhitespace_trimmed)
  have c: "ParseColorToken stof_decimal (SerializeColorToken (primaryColor (customization p)))
      = quantize_color (primaryColor (customization p))"
    "ParseColorToken stof_decimal (SerializeColorToken (accentColor (customization p)))
      = quantize_color (accentColor (customization p))"
    using assms by (simp_all add: storable_def ParseColorToken_SerializeColorToken)
  have cust: "storage_customization stof_decimal (saved_tokens p) = customization (quantize p)"
    by (rule PresetCustomization.equality)
       (simp_all add: storage_customization_fields saved_tokens_def t c quantize_def flag_char_simps)
  have "storage_line stof_decimal (butlast (save_line p)) =
      Some \<lparr>name = TrimWhitespace (saved_tokens p ! 0),
            loadoutCode = TrimWhitespace (saved_tokens p ! 1),
            customization = storage_customization stof_decimal (saved_tokens p)\<rparr>"
    using trimmed_saved [OF assms] TokenizeLine_saved [OF assms]
    by (simp add: storage_line_def Let_def saved_tokens_def)
  also have "\<dots> = Some (quantize p)"
    unfolding cust by (simp add: saved_tokens_def t quantize_def)
  finally show ?thesis .
qed

lemma save_line_free: "storable p \<Longrightarrow> CHR 0x0A \<notin> set (butlast (save_line p))"
  unfolding save_line_eq butlast_snoc
  by (simp add: storable_def storable_text_def SerializeColorToken_free flag_char_simps)

lemma getlines_saved:
  assumes "\<forall>p\<in>set ps. storable p"
  shows "getlines (CHR 0x0A) (concat (map save_line ps)) = map (\<lambda>p. butlast (save_line p)) ps"
  using assms
proof (induction ps)
  case Nil
  then show ?case by simp
next
  case (Cons p ps)
  have "save_line p = butlast (save_line p) @ [CHR 0x0A]"
    unfolding save_line_eq butlast_snoc ..
  then have e: "concat (map save_line (p # ps)) =
      butlast (save_line p) @ CHR 0x0A # concat (map save_line ps)"
    by (metis append_Cons append_Nil append_assoc concat.simps(2) list.simps(9))
  have "CHR 0x0A \<notin> set (butlast (save_line p))"
    using Cons.prems by (simp add: save_line_free)
  then have "getlines (CHR 0x0A) (butlast (save_line p) @ CHR 0x0A # concat (map save_line ps)) =
      butlast (save_line p) # getlines (CHR 0x0A) (concat (map save_line ps))"
    by (rule getlines_field)
  then show ?case
    unfolding e using Cons by simp
qed

lemma FindPresetIndex_absent:
  "nm \<notin> name ` set ps \<Longrightarrow> FindPresetIndex ps nm = length ps"
  by (induction ps) auto

lemma LoadFromStorage_loop_distinct:
  assumes "\<forall>l\<in>set ls. \<exists>p. storage_line stof l = Some p"
    and "distinct (map (\<lambda>l. name (the (storage_line stof l))) ls)"
    and "\<forall>l\<in>set ls. name (the (storage_line stof l)) \<notin> name ` set acc"
  shows "foldl (LoadFromStorage_step stof) acc ls = acc @ map (\<lambda>l. the (storage_line stof l)) ls"
  using assms
proof (induction ls arbitrary: acc)
  case Nil
  then show ?case by simp
next
  case (Cons l ls)
  obtain p where p: "storage_line stof l = Some p" using Cons.prems(1) by auto
  have "name p \<notin> name ` set acc" using Cons.prems(3) p by simp
  then have step: "LoadFromStorage_step stof acc l = acc @ [p]"
    by (simp add: LoadFromStorage_step_def p AddOrUpdatePreset_def FindPresetIndex_absent)
  have d: "name p \<notin> (\<lambda>l. name (the (storage_line stof l))) ` set ls"
    using Cons.prems(2) p by simp
  have 3: "\<forall>l\<in>set ls. name (the (storage_line stof l)) \<notin> name ` set (acc @ [p])"
  proof
    fix l' assume l': "l' \<in> set ls"
    then have "name (the (storage_line stof l')) \<notin> name ` set acc"
      using Cons.prems(3) by simp
    moreover have "name (the (storage_line stof l')) \<noteq> name p"
      using d l' by force
    ultimately show "name (the (storage_line stof l')) \<notin> name ` set (acc @ [p])" by simp
  qed
  have "foldl (LoadFromStorage_step stof) (acc @ [p]) ls
      = (acc @ [p]) @ map (\<lambda>l. the (storage_line stof l)) ls"
    using Cons.prems(1,2) 3 by (intro Cons.IH) simp_all
  then show ?case by (simp add: step p)
qed

lemma close_color_quantize: "close_color c (quantize_color c)"
  using round3_close [of "r c"] round3_close [of "g c"] round3_close [of "b c"]
  by (simp add: close_color_def quantize_color_def)

lemma same_record_quantize: "same_record p (quantize p)"
  by (simp add: same_record_def quantize_def close_color_quantize)

lemma save_then_load_presets:
  assumes "\<forall>p\<in>set (presets m). storable p"
    and "distinct (map name (presets m))"
    and "storage_dir_empty m \<or> storage_dir_exists m \<or> storage_dir_creatable m"
    and "storage_file_writable m"
  shows "\<exists>m2. save_then_load stof_decimal m = Inr m2 \<and> presets m2 = map quantize (presets m)"
proof -
  define ls where "ls = map (\<lambda>p. butlast (save_line p)) (presets m)"
  obtain m1 where m1: "SaveToStorage m = Inr m1"
    and stored: "storage_file m1 = Content (concat (map save_line (presets m)))"
    using SaveToStorage_returns [OF assms(3)] assms(4) by auto
  have lines: "getlines (CHR 0x0A) (concat (map save_line (presets m))) = ls"
    unfolding ls_def using assms(1) by (rule getlines_saved)
  have rec: "storage_line stof_decimal l = Some (quantize p)"
    if "p \<in> set (presets m)" "l = butlast (save_line p)" for l p
    using that assms(1) by (simp add: storage_line_saved)
  have the_rec: "map (\<lambda>l. the (storage_line stof_decimal l)) ls = map quantize (presets m)"
    unfolding ls_def by (simp add: rec)
  have names: "map (\<lambda>l. name (the (storage_line stof_decimal l))) ls = map name (presets m)"
    unfolding ls_def by (simp add: rec quantize_def)
  have "foldl (LoadFromStorage_step stof_decimal) [] ls
      = [] @ map (\<lambda>l. the (storage_line stof_decimal l)) ls"
  proof (rule LoadFromStorage_loop_distinct)
    show "\<forall>l\<in>set ls. \<exists>p. storage_line stof_decimal l = Some p"
      unfolding ls_def using rec by auto
    show "distinct (map (\<lambda>l. name (the (storage_line stof_decimal l))) ls)"
      unfolding names by (rule assms(2))
    show "\<forall>l\<in>set ls. name (the (storage_line stof_decimal l)) \<notin> name ` set []"
      by simp
  qed
  then have loop: "foldl (LoadFromStorage_step stof_decimal) [] ls = map quantize (presets m)"
    by (simp add: the_rec)
  have "LoadFromStorage stof_decimal m1 =
      Inr (m1\<lparr>presets := map quantize (presets m)\<rparr>)"
    by (simp add: LoadFromStorage_def Let_def stored lines loop)
  then show ?thesis by (simp add: save_then_load_def m1)
qed

text \<open>
  Claim C1 as the spec states it fails: a record whose name begins with \<^verbatim>\<open>#\<close> has a
  non-empty name and code and colours in range, its line is written by \<^verbatim>\<open>SaveToStorage\<close>
  and skipped as a comment by \<^verbatim>\<open>LoadFromStorage\<close>, and the loaded collection is empty.
\<close>

theorem save_load_counterexample:
  "name hash_preset \<noteq> [] \<and> loadoutCode hash_preset \<noteq> [] \<and>
   in_unit_range (primaryColor (customization hash_preset)) \<and>
   in_unit_range (accentColor (customization hash_preset)) \<and>
   map_sum id presets (save_then_load stof_decimal (example_manager\<lparr>presets := [hash_preset]\<rparr>))
     = Inr []"
proof -
  have "map_sum id presets (save_then_load stof_decimal (example_manager\<lparr>presets := [hash_preset]\<rparr>))
     = Inr []"
    by code_simp
  then show ?thesis
    by (simp add: hash_preset_def in_unit_range_def default_customization_def)
qed

text \<open>
  Claim C1, as the code has it: when the names of the collection are distinct, every name
  is non-empty and does not begin with \<^verbatim>\<open>#\<close>, every code is non-empty, name, code and the
  three labels of every record have no white space at either end and contain neither
  \<^verbatim>\<open>|\<close> nor a newline, every channel lies in \<open>[0, 1]\<close>, and the save reaches the file
  (the directory exists or can be created, and the file opens for writing), then
  \<^verbatim>\<open>SaveToStorage\<close> followed by \<^verbatim>\<open>LoadFromStorage\<close> returns and yields the same records in the
  same order with every channel rounded to three decimals, hence within 0.0005 of the
  saved value.
\<close>

theorem save_load_roundtrip:
  assumes "\<forall>p\<in>set (presets m). storable p"
    and "distinct (map name (presets m))"
    and "storage_dir_empty m \<or> storage_dir_exists m \<or> storage_dir_creatable m"
    and "storage_file_writable m"
  shows "\<exists>m2. save_then_load stof_decimal m = Inr m2 \<and>
           presets m2 = map quantize (presets m) \<and>
           list_all2 same_record (presets m) (presets m2)"
proof -
  obtain m2 where m2: "save_then_load stof_decimal m = Inr m2"
    "presets m2 = map quantize (presets m)"
    using save_then_load_presets [OF assms] by blast
  have "list_all2 same_record (presets m) (map quantize (presets m))"
    by (simp add: list_all2_map2 list_all2_same same_record_quantize)
  then show ?thesis using m2 by simp
qed

theorem save_load_roundtrip_witness:
  "list_all storable (presets painted_store) \<and>
   distinct (map name (presets painted_store)) \<and>
   storage_dir_creatable painted_store \<and> storage_file_writable painted_store \<and>
   map_sum id presets (save_then_load stof_decimal painted_store) =
     Inr [\<lparr>name = ''Team GT'', loadoutCode = ''RLCS-AAAA-BBBB-CCCC-DDDD'',
           customization = default_customization
             \<lparr>primaryColor := \<lparr>r = 123 / 1000, g = 1 / 2, b = 1\<rparr>,
              paintFinishMatte := True\<rparr>\<rparr>,
          \<lparr>name = ''My Custom'', loadoutCode = ''CUSTOM-1'',
           customization = default_customization\<rparr>]"
proof -
  have s: "\<forall>p\<in>set (presets painted_store). storable p"
    by (simp add: painted_store_def example_manager_def storable_def storable_text_def trimmed_def
        is_ws_def in_unit_range_def default_customization_def)
  have d: "distinct (map name (presets painted_store))"
    by (simp add: painted_store_def example_manager_def)
  have f: "storage_dir_empty painted_store \<or> storage_dir_exists painted_store \<or>
      storage_dir_creatable painted_store" "storage_file_writable painted_store"
    "storage_dir_creatable painted_store"
    by (simp_all add: painted_store_def example_manager_def)
  have q: "map quantize (presets painted_store) =
     [\<lparr>name = ''Team GT'', loadoutCode = ''RLCS-AAAA-BBBB-CCCC-DDDD'',
           customization = default_customization
             \<lparr>primaryColor := \<lparr>r = 123 / 1000, g = 1 / 2, b = 1\<rparr>,
              paintFinishMatte := True\<rparr>\<rparr>,
          \<lparr>name = ''My Custom'', loadoutCode = ''CUSTOM-1'',
           customization = default_customization\<rparr>]"
    by code_simp
  obtain m2 where "save_then_load stof_decimal painted_store = Inr m2"
    "presets m2 = map quantize (presets painted_store)"
    using save_load_roundtrip [OF s d f(1,2)] by blast
  then have "map_sum id presets (save_then_load stof_decimal painted_store) =
      Inr (map quantize (presets painted_store))"
    by simp
  then show ?thesis using s d f unfolding q list_all_iff by simp
qed

section \<open>Properties of the catalog import\<close>

lemma new_names_simps:
  "new_names store [] = []"
  "new_names store (p # ps) =
     (if name p \<in> name ` set store then new_names store ps else p # new_names store ps)"
  by (simp_all add: new_names_def)

lemma new_names_snoc:
  "new_names (store @ [p]) ps = filter (\<lambda>q. name q \<noteq> name p) (new_names store ps)"
  by (induction ps) (auto simp: new_names_def)

lemma ImportFromFile_loop_keep:
  "foldl (ImportFromFile_step parse False) (acc, n) lines =
     (acc @ first_by_name (new_names acc (List.map_filter parse lines)),
      n + length (first_by_name (new_names acc (List.map_filter parse lines))))"
proof (induction lines arbitrary: acc n)
  case Nil
  show ?case by (simp add: List.map_filter_simps new_names_simps)
next
  case (Cons line lines)
  show ?case
  proof (cases "parse line")
    case None
    then show ?thesis using Cons [of acc n]
      by (simp add: ImportFromFile_step_def List.map_filter_simps)
  next
    case (Some p)
    show ?thesis
    proof (cases "name p \<in> name ` set acc")
      case True
      then show ?thesis using Some Cons [of acc n]
        by (simp add: ImportFromFile_step_def List.map_filter_simps new_names_simps
            FindPresetIndex_lt_iff)
    next
      case False
      then have "\<not> FindPresetIndex acc (name p) < length acc"
        by (simp add: FindPresetIndex_lt_iff)
      then have "ImportFromFile_step parse False (acc, n) line = (acc @ [p], n + 1)"
        using Some
        by (simp add: ImportFromFile_step_def AddOrUpdatePreset_def not_less)
      then show ?thesis using False Some Cons [of "acc @ [p]" "n + 1"]
        by (simp add: List.map_filter_simps new_names_simps new_names_snoc)
    qed
  qed
qed

lemma ImportFromFile_loop_overwrite:
  "foldl (ImportFromFile_step parse True) (acc, n) lines =
     (upsert_all acc (List.map_filter parse lines), n + length (List.map_filter parse lines))"
proof -
  have "foldl (ImportFromFile_step parse True) (acc, n) lines =
     (foldl AddOrUpdatePreset acc (List.map_filter parse lines),
      n + length (List.map_filter parse lines))"
    by (induction lines arbitrary: acc n)
       (simp_all add: ImportFromFile_step_def List.map_filter_simps split: option.splits)
  then show ?thesis by (simp add: foldl_AddOrUpdatePreset)
qed

lemma upsert_all_one: "upsert_all store [p] = AddOrUpdatePreset store p"
  using foldl_AddOrUpdatePreset [of store "[p]"] by simp

text \<open>
  Claim C2: with \<open>incoming\<close> the valid records of the file in order, \<^verbatim>\<open>ImportFromFile\<close>
  returns, under \<open>overwriteExisting\<close>, the store in which the first stored record of
  every incoming name is replaced in place by the last incoming record of that name and
  the records of new names are appended, with the count of all valid records (each was
  added or overwrote one); without \<open>overwriteExisting\<close>, the store as it was followed by
  the first incoming record of each new name, with the count of the records so appended.
  For a file with a single valid record this is the rule of the claim: a record whose
  name is in the store replaces the stored one and counts 1 under \<open>overwriteExisting\<close>,
  and otherwise leaves the store as it is and counts 0; a record with a new name is
  appended and counts 1. A missing file gives the count 0, the collection unchanged and
  one more line of the log, as a result and not as an exception.
\<close>

theorem ImportFromFile_policy:
  "ImportFromFile parse path (Content body) overwriteExisting m =
     (let incoming = List.map_filter parse (getlines (CHR 0x0A) body);
          appended = first_by_name (new_names (presets m) incoming)
      in if overwriteExisting
         then (m\<lparr>presets := upsert_all (presets m) incoming\<rparr>, length incoming)
         else (m\<lparr>presets := presets m @ appended\<rparr>, length appended)) \<and>
   (List.map_filter parse (getlines (CHR 0x0A) body) = [p] \<longrightarrow>
      ImportFromFile parse path (Content body) overwriteExisting m =
        (if name p \<in> name ` set (presets m)
         then (if overwriteExisting
               then (m\<lparr>presets := (presets m)[FindPresetIndex (presets m) (name p) := p]\<rparr>, 1)
               else (m\<lparr>presets := presets m\<rparr>, 0))
         else (m\<lparr>presets := presets m @ [p]\<rparr>, 1))) \<and>
   snd (ImportFromFile parse path Missing overwriteExisting m) = 0 \<and>
   presets (fst (ImportFromFile parse path Missing overwriteExisting m)) = presets m \<and>
   length (log_lines (fst (ImportFromFile parse path Missing overwriteExisting m)))
     = length (log_lines m) + 1"
proof -
  define incoming where "incoming = List.map_filter parse (getlines (CHR 0x0A) body)"
  have 1: "ImportFromFile parse path (Content body) overwriteExisting m =
     (let appended = first_by_name (new_names (presets m) incoming)
      in if overwriteExisting
         then (m\<lparr>presets := upsert_all (presets m) incoming\<rparr>, length incoming)
         else (m\<lparr>presets := presets m @ appended\<rparr>, length appended))"
    by (cases overwriteExisting)
       (simp_all add: ImportFromFile_def Let_def ImportFromFile_loop_keep
          ImportFromFile_loop_overwrite incoming_def)
  have 2: "incoming = [p] \<longrightarrow>
      ImportFromFile parse path (Content body) overwriteExisting m =
        (if name p \<in> name ` set (presets m)
         then (if overwriteExisting
               then (m\<lparr>presets := (presets m)[FindPresetIndex (presets m) (name p) := p]\<rparr>, 1)
               else (m\<lparr>presets := presets m\<rparr>, 0))
         else (m\<lparr>presets := presets m @ [p]\<rparr>, 1))"
  proof
    assume one: "incoming = [p]"
    show "ImportFromFile parse path (Content body) overwriteExisting m =
        (if name p \<in> name ` set (presets m)
         then (if overwriteExisting
               then (m\<lparr>presets := (presets m)[FindPresetIndex (presets m) (name p) := p]\<rparr>, 1)
               else (m\<lparr>presets := presets m\<rparr>, 0))
         else (m\<lparr>presets := presets m @ [p]\<rparr>, 1))"
      unfolding 1 one
      by (simp add: Let_def upsert_all_one new_names_simps AddOrUpdatePreset_def
          FindPresetIndex_lt_iff [symmetric] not_less)
  qed
  have 3: "snd (ImportFromFile parse path Missing overwriteExisting m) = 0"
    by (simp add: ImportFromFile_def)
  have 4: "presets (fst (ImportFromFile parse path Missing overwriteExisting m)) = presets m"
    by (simp add: ImportFromFile_def)
  have 5: "length (log_lines (fst (ImportFromFile parse path Missing overwriteExisting m)))
     = length (log_lines m) + 1"
    by (simp add: ImportFromFile_def cvar_log_def)
  show ?thesis
    unfolding incoming_def [symmetric] Let_def
    using 1 2 3 4 5 unfolding Let_def by blast
qed

theorem ImportFromFile_policy_witness:
  "map name (presets octane_store) = [''Octane Classic''] \<and>
   map name (List.map_filter (storage_line stof_decimal) (getlines (CHR 0x0A) catalog_text)) =
     [''Fennec'', ''Octane Classic'', ''Fennec'', ''Dominus''] \<and>
   ImportFromFile (storage_line stof_decimal) ''bakkesplugins_cars.cfg'' catalog_example False octane_store =
     (octane_store\<lparr>presets :=
        [\<lparr>name = ''Octane Classic'', loadoutCode = ''OLD-CODE'', customization = default_customization\<rparr>,
         \<lparr>name = ''Fennec'', loadoutCode = ''F-1'', customization = default_customization\<rparr>,
         \<lparr>name = ''Dominus'', loadoutCode = ''D-1'', customization = default_customization\<rparr>]\<rparr>, 2) \<and>
   ImportFromFile (storage_line stof_decimal) ''bakkesplugins_cars.cfg'' catalog_example True octane_store =
     (octane_store\<lparr>presets :=
        [\<lparr>name = ''Octane Classic'', loadoutCode = ''NEW-CODE'', customization = default_customization\<rparr>,
         \<lparr>name = ''Fennec'', loadoutCode = ''F-2'', customization = default_customization\<rparr>,
         \<lparr>name = ''Dominus'', loadoutCode = ''D-1'', customization = default_customization\<rparr>]\<rparr>, 4) \<and>
   snd (ImportFromFile (storage_line stof_decimal) ''bakkesplugins_cars.cfg'' Missing True octane_store) = 0 \<and>
   presets (fst (ImportFromFile (storage_line stof_decimal) ''bakkesplugins_cars.cfg'' Missing True octane_store))
     = presets octane_store"
proof -
  define incoming where
    "incoming = List.map_filter (storage_line stof_decimal) (getlines (CHR 0x0A) catalog_text)"
  have names: "map name incoming = [''Fennec'', ''Octane Classic'', ''Fennec'', ''Dominus'']"
    unfolding incoming_def by code_simp
  have old: "presets octane_store =
     [\<lparr>name = ''Octane Classic'', loadoutCode = ''OLD-CODE'', customization = default_customization\<rparr>]"
    by (simp add: octane_store_def)
  have keep: "first_by_name (new_names (presets octane_store) incoming) =
     [\<lparr>name = ''Fennec'', loadoutCode = ''F-1'', customization = default_customization\<rparr>,
      \<lparr>name = ''Dominus'', loadoutCode = ''D-1'', customization = default_customization\<rparr>]"
    unfolding incoming_def by code_simp
  have over: "upsert_all (presets octane_store) incoming =
     [\<lparr>name = ''Octane Classic'', loadoutCode = ''NEW-CODE'', customization = default_customization\<rparr>,
      \<lparr>name = ''Fennec'', loadoutCode = ''F-2'', customization = default_customization\<rparr>,
      \<lparr>name = ''Dominus'', loadoutCode = ''D-1'', customization = default_customization\<rparr>]"
    unfolding incoming_def by code_simp
  have len: "length incoming = 4"
    using arg_cong [OF names, of length] by simp
  have f: "ImportFromFile (storage_line stof_decimal) ''bakkesplugins_cars.cfg'' catalog_example False octane_store =
     (octane_store\<lparr>presets := presets octane_store @ first_by_name (new_names (presets octane_store) incoming)\<rparr>,
      length (first_by_name (new_names (presets octane_store) incoming)))"
    using ImportFromFile_policy [of "storage_line stof_decimal" "''bakkesplugins_cars.cfg''"
        catalog_text False octane_store]
    by (simp add: catalog_example_def incoming_def Let_def)
  have t: "ImportFromFile (storage_line stof_decimal) ''bakkesplugins_cars.cfg'' catalog_example True octane_store =
     (octane_store\<lparr>presets := upsert_all (presets octane_store) incoming\<rparr>, length incoming)"
    using ImportFromFile_policy [of "storage_line stof_decimal" "''bakkesplugins_cars.cfg''"
        catalog_text True octane_store]
    by (simp add: catalog_example_def incoming_def Let_def)
  have m: "snd (ImportFromFile (storage_line stof_decimal) ''bakkesplugins_cars.cfg'' Missing True octane_store) = 0"
    "presets (fst (ImportFromFile (storage_line stof_decimal) ''bakkesplugins_cars.cfg'' Missing True octane_store))
     = presets octane_store"
    using ImportFromFile_policy [of "storage_line stof_decimal" "''bakkesplugins_cars.cfg''"
        catalog_text True octane_store]
    by simp_all
  have o: "map name (presets octane_store) = [''Octane Classic'']" by (simp add: old)
  show ?thesis
    unfolding incoming_def [symmetric] f t keep over len
    using names m o by (simp add: old)
qed

text \<open>
  The caller in the source, \<^verbatim>\<open>ImportBakkesPluginsCatalog\<close>, does not reach \<^verbatim>\<open>ImportFromFile\<close>
  when the catalog file does not exist: it logs two lines and leaves the collection and
  the selection as they are.
\<close>

lemma ImportBakkesPluginsCatalog_missing:
  assumes "presetManager plugin = Some m" "cvarManager_set plugin"
  shows "\<exists>m'. presetManager (ImportBakkesPluginsCatalog parse catalogPath Missing overwriteExisting plugin) = Some m' \<and>
      presets m' = presets m \<and>
      log_lines m' = log_lines m @
        [''ExpandedPresets: Catalog file not found at '' @ catalogPath,
         ''ExpandedPresets: Run the download script or copy bakkesplugins_cars.cfg into this folder.''] \<and>
      selectedPresetIndex (ImportBakkesPluginsCatalog parse catalogPath Missing overwriteExisting plugin)
        = selectedPresetIndex plugin"
  using assms by (simp add: ImportBakkesPluginsCatalog_def cvar_log_def)

end
